theory Spec2Isabelle
  imports Complex_Main "HOL-Library.AList"
begin

section \<open>Double-precision numbers\<close>

text \<open>
  The program (\<^verbatim>\<open>app.py\<close>) computes on pandas columns of 64-bit floats, and every
  arithmetic operation of numpy and pandas rounds its exact result to the nearest
  double, a tie going to the even mantissa. A double is modelled as the real number it
  stands for: a number with at most 53 significant bits. Two things are outside the
  model: results beyond the largest double (which become infinite) and results below the
  smallest normal double (which lose precision), so the exponent is not bounded. NaN is
  kept apart from the numbers, see \<open>cell\<close> below.
\<close>

text \<open>Rounding to the nearest integer, a tie going to the even neighbour (\<^verbatim>\<open>rint\<close>).\<close>

definition round_half_even :: "real \<Rightarrow> int" where
  "round_half_even x =
     (let f = \<lfloor>x\<rfloor>; d = x - real_of_int f
      in if d < 1 / 2 then f
         else if d > 1 / 2 then f + 1
         else if even f then f else f + 1)"

text \<open>The binary exponent of a number: \<open>2 powi expo x \<le> \<bar>x\<bar> < 2 powi (expo x + 1)\<close>.\<close>

definition expo :: "real \<Rightarrow> int" where
  "expo x = \<lfloor>log 2 \<bar>x\<bar>\<rfloor>"

text \<open>Rounding to 53 significant bits: the mantissa \<open>x / 2 powi (expo x - 52)\<close> lies
  between \<open>2 ^ 52\<close> and \<open>2 ^ 53\<close> and is rounded to an integer.\<close>

definition fl :: "real \<Rightarrow> real" where
  "fl x =
     (if x = 0 then 0
      else real_of_int (round_half_even (x / 2 powi (expo x - 52))) * 2 powi (expo x - 52))"

typedef float64 = "{x::real. fl x = x}"
  morphisms to_real Abs_float64
  by (rule exI [of _ 0]) (simp add: fl_def)

text \<open>The double nearest to a real number.\<close>

definition dbl :: "real \<Rightarrow> float64" where
  "dbl x = Abs_float64 (fl x)"

text \<open>
  The operations of doubles: the exact result, rounded. Comparisons are exact. A
  quotient by zero does not occur in the program (the divisors are a window length of at
  least 20, a sum of positive weights, a power of ten, and an \<^verbatim>\<open>alpha\<close> that has passed
  its check); here it is \<open>0\<close>, as in HOL.
\<close>

instantiation float64 :: "{zero, one, plus, minus, times, inverse, abs, linorder}"
begin

definition zero_float64 :: float64 where
  "zero_float64 = dbl 0"

definition one_float64 :: float64 where
  "one_float64 = dbl 1"

definition plus_float64 :: "float64 \<Rightarrow> float64 \<Rightarrow> float64" where
  "plus_float64 a b = dbl (to_real a + to_real b)"

definition minus_float64 :: "float64 \<Rightarrow> float64 \<Rightarrow> float64" where
  "minus_float64 a b = dbl (to_real a - to_real b)"

definition times_float64 :: "float64 \<Rightarrow> float64 \<Rightarrow> float64" where
  "times_float64 a b = dbl (to_real a * to_real b)"

definition divide_float64 :: "float64 \<Rightarrow> float64 \<Rightarrow> float64" where
  "divide_float64 a b = dbl (to_real a / to_real b)"

definition inverse_float64 :: "float64 \<Rightarrow> float64" where
  "inverse_float64 a = dbl (1 / to_real a)"

definition abs_float64 :: "float64 \<Rightarrow> float64" where
  "abs_float64 a = dbl \<bar>to_real a\<bar>"

definition less_eq_float64 :: "float64 \<Rightarrow> float64 \<Rightarrow> bool" where
  "less_eq_float64 a b \<longleftrightarrow> to_real a \<le> to_real b"

definition less_float64 :: "float64 \<Rightarrow> float64 \<Rightarrow> bool" where
  "less_float64 a b \<longleftrightarrow> to_real a < to_real b"

instance
  by standard (auto simp: less_eq_float64_def less_float64_def to_real_inject)

end

text \<open>An integer count as a double (exact below \<open>2 ^ 53\<close>).\<close>

definition float_of_nat :: "nat \<Rightarrow> float64" where
  "float_of_nat n = dbl (real n)"

text \<open>\<^verbatim>\<open>rint\<close> on a double.\<close>

definition rint :: "float64 \<Rightarrow> float64" where
  "rint a = dbl (real_of_int (round_half_even (to_real a)))"

section \<open>Values, series and errors\<close>

text \<open>
  A float of a column is a double or NaN: \<open>None\<close> is NaN, \<open>Some x\<close> is the double \<open>x\<close>.
  A Series is the list of its values in index order.
\<close>

type_synonym cell = "float64 option"

type_synonym series = "cell list"

datatype error = KeyError | ValueError | ZeroDivisionError | TypeError | OverflowError

subsection \<open>Elementwise operations of pandas\<close>

text \<open>\<^verbatim>\<open>a - b\<close> on floats: NaN when either side is NaN.\<close>

definition cell_sub :: "cell \<Rightarrow> cell \<Rightarrow> cell" where
  "cell_sub a b =
     (case a of None \<Rightarrow> None
      | Some x \<Rightarrow> (case b of None \<Rightarrow> None | Some y \<Rightarrow> Some (x - y)))"

text \<open>\<^verbatim>\<open>s1 - s2\<close> on two Series over the same index.\<close>

definition series_sub :: "series \<Rightarrow> series \<Rightarrow> series" where
  "series_sub xs ys = map2 cell_sub xs ys"

text \<open>\<^verbatim>\<open>abs(s)\<close>: NaN stays NaN.\<close>

definition series_abs :: "series \<Rightarrow> series" where
  "series_abs xs = map (map_option abs) xs"

text \<open>\<^verbatim>\<open>s.shift(1)\<close>: every value moves one position down, the first becomes NaN,
  the last is dropped; the length is kept.\<close>

definition shift1 :: "series \<Rightarrow> series" where
  "shift1 xs = take (length xs) (None # xs)"

text \<open>The maximum of two floats that skips NaN (\<^verbatim>\<open>skipna=True\<close>, the default of
  \<^verbatim>\<open>DataFrame.max\<close>): NaN only when both are NaN.\<close>

definition cell_max :: "cell \<Rightarrow> cell \<Rightarrow> cell" where
  "cell_max a b =
     (case a of None \<Rightarrow> b
      | Some x \<Rightarrow> (case b of None \<Rightarrow> Some x | Some y \<Rightarrow> Some (max x y)))"

text \<open>\<^verbatim>\<open>df[[c1, c2, c3]].max(axis=1)\<close>: the row-wise maximum of three columns.\<close>

definition row_max3 :: "series \<Rightarrow> series \<Rightarrow> series \<Rightarrow> series" where
  "row_max3 a b c = map (\<lambda>(x, y, z). cell_max (cell_max x y) z) (zip a (zip b c))"

text \<open>The value of column \<^verbatim>\<open>tr\<close> after lines 20 to 23 of \<^verbatim>\<open>calculate_atr_percentile\<close>,
  as a function of the columns \<^verbatim>\<open>High\<close>, \<^verbatim>\<open>Low\<close> and \<^verbatim>\<open>Close\<close>:
  \<^verbatim>\<open>tr1 = High - Low\<close>, \<^verbatim>\<open>tr2 = abs(High - Close.shift(1))\<close>,
  \<^verbatim>\<open>tr3 = abs(Low - Close.shift(1))\<close>, \<^verbatim>\<open>tr = max(tr1, tr2, tr3)\<close> by row.\<close>

definition true_range :: "series \<Rightarrow> series \<Rightarrow> series \<Rightarrow> series" where
  "true_range high low close =
     row_max3 (series_sub high low)
       (series_abs (series_sub high (shift1 close)))
       (series_abs (series_sub low (shift1 close)))"

subsection \<open>Exponentially weighted mean\<close>

text \<open>
  \<^verbatim>\<open>1 / atr_length\<close> on Python integers: true division. It raises
  \<^verbatim>\<open>ZeroDivisionError\<close> on a zero divisor and \<^verbatim>\<open>OverflowError\<close> when the quotient is too
  large for a double; otherwise the result is the double nearest to the exact quotient,
  where a quotient below the smallest normal double \<open>2 powi (- 1022)\<close> is rounded to a
  multiple of \<open>2 powi (- 1074)\<close> and so becomes \<open>0\<close> when it is small enough.
\<close>

definition py_truediv :: "int \<Rightarrow> int \<Rightarrow> error + float64" where
  "py_truediv a b =
     (if b = 0 then Inl ZeroDivisionError
      else (let q = real_of_int a / real_of_int b
            in if \<bar>q\<bar> < 2 powi (- 1022)
               then Inr (dbl (real_of_int (round_half_even (q / 2 powi (- 1074))) * 2 powi (- 1074)))
               else if 2 ^ 1024 \<le> \<bar>fl q\<bar> then Inl OverflowError
               else Inr (dbl q)))"

text \<open>pandas turns \<^verbatim>\<open>alpha\<close> into a centre of mass when the \<^verbatim>\<open>ewm\<close> object is built,
  and refuses an \<^verbatim>\<open>alpha\<close> outside \<open>(0, 1]\<close> with a \<^verbatim>\<open>ValueError\<close>.\<close>

definition get_center_of_mass :: "float64 \<Rightarrow> error + float64" where
  "get_center_of_mass alpha =
     (if alpha \<le> 0 \<or> alpha > 1 then Inl ValueError else Inr ((1 - alpha) / alpha))"

text \<open>
  The loop of pandas' \<^verbatim>\<open>ewm\<close> kernel for \<^verbatim>\<open>adjust=False\<close>, \<^verbatim>\<open>ignore_na=False\<close>, from
  the second value on. \<open>weighted\<close> is the running mean and \<open>old_wt\<close> the weight of
  the past. On a value \<open>cur\<close>:
  \<^item> running mean not NaN: \<open>old_wt\<close> is multiplied by \<open>old_wt_factor\<close>; when \<open>cur\<close> is not
    NaN and differs from the mean, the mean becomes
    \<open>(old_wt * weighted + new_wt * cur) / (old_wt + new_wt)\<close>, and \<open>old_wt\<close> is reset to 1;
    when \<open>cur\<close> is NaN the mean is kept;
  \<^item> running mean NaN: the mean becomes \<open>cur\<close>.
  The output at each position is the running mean. Every operation is one of doubles and
  rounds on its own (no fused multiply-add).
\<close>

fun ewm_loop :: "float64 \<Rightarrow> float64 \<Rightarrow> cell \<Rightarrow> float64 \<Rightarrow> series \<Rightarrow> series" where
  "ewm_loop old_wt_factor new_wt weighted old_wt [] = []"
| "ewm_loop old_wt_factor new_wt weighted old_wt (cur # rest) =
     (case weighted of
        None \<Rightarrow> cur # ewm_loop old_wt_factor new_wt cur old_wt rest
      | Some w \<Rightarrow>
          (let old_wt1 = old_wt * old_wt_factor in
           case cur of
             None \<Rightarrow> Some w # ewm_loop old_wt_factor new_wt (Some w) old_wt1 rest
           | Some c \<Rightarrow>
               (let w' = (if w \<noteq> c then (old_wt1 * w + new_wt * c) / (old_wt1 + new_wt) else w)
                in Some w' # ewm_loop old_wt_factor new_wt (Some w') 1 rest)))"

text \<open>\<^verbatim>\<open>s.ewm(alpha=alpha, adjust=False).mean()\<close>: the check of \<^verbatim>\<open>alpha\<close>, then the kernel,
  seeded with the first value and weight 1. The kernel recomputes \<^verbatim>\<open>alpha\<close> from the
  centre of mass as \<^verbatim>\<open>1. / (1. + com)\<close>, and the weight factor of the past is one minus
  that.\<close>

definition ewm_mean :: "float64 \<Rightarrow> series \<Rightarrow> error + series" where
  "ewm_mean alpha vals =
     (case get_center_of_mass alpha of
        Inl e \<Rightarrow> Inl e
      | Inr com \<Rightarrow>
          Inr (case vals of
                 [] \<Rightarrow> []
               | v # rest \<Rightarrow>
                   (let alpha' = 1 / (1 + com) in v # ewm_loop (1 - alpha') alpha' v 1 rest)))"

text \<open>Line 26, the ATR smoothing step:
  \<^verbatim>\<open>df['tr'].ewm(alpha=1/atr_length, adjust=False).mean()\<close>. The division is evaluated
  first, then the \<^verbatim>\<open>ewm\<close> object is built, then the mean is computed.\<close>

definition atr_smooth :: "int \<Rightarrow> series \<Rightarrow> error + series" where
  "atr_smooth atr_length tr =
     (case py_truediv 1 atr_length of
        Inl e \<Rightarrow> Inl e
      | Inr alpha \<Rightarrow> ewm_mean alpha tr)"

subsection \<open>Rolling percentile rank\<close>

text \<open>\<^verbatim>\<open>x <= y\<close> on floats: false when either side is NaN.\<close>

definition cell_le :: "cell \<Rightarrow> cell \<Rightarrow> bool" where
  "cell_le a b =
     (case a of None \<Rightarrow> False
      | Some x \<Rightarrow> (case b of None \<Rightarrow> False | Some y \<Rightarrow> x \<le> y))"

text \<open>The inner function \<^verbatim>\<open>percentile_rank\<close> (lines 29 to 33): NaN on fewer than 20
  values; otherwise \<^verbatim>\<open>(series <= current_value).sum() / len(series) * 100\<close>: the number of
  values of the window that are \<^verbatim>\<open><=\<close> its last value, divided by the length of the
  window, and the quotient times 100, in this order and each in doubles.\<close>

definition percentile_rank :: "series \<Rightarrow> cell" where
  "percentile_rank series =
     (if length series < 20 then None
      else (let current_value = last series
            in Some (float_of_nat (length (filter (\<lambda>x. cell_le x current_value) series))
                     / float_of_nat (length series) * dbl 100)))"

text \<open>
  \<^verbatim>\<open>s.rolling(window=window, min_periods=min_periods).apply(func, raw=False)\<close>.
  Building the rolling object raises \<^verbatim>\<open>ValueError\<close> when \<^verbatim>\<open>min_periods\<close> exceeds the
  window or the window is negative. The window of position \<open>i\<close> is the slice from
  \<open>max 0 (i + 1 - window)\<close> up to \<open>i\<close> inclusive; \<open>func\<close> is called on it when it
  holds at least \<^verbatim>\<open>min_periods\<close> values that are not NaN, and the result is NaN otherwise.
\<close>

definition rolling_apply :: "int \<Rightarrow> nat \<Rightarrow> (series \<Rightarrow> cell) \<Rightarrow> series \<Rightarrow> error + series" where
  "rolling_apply window min_periods func xs =
     (if int min_periods > window then Inl ValueError
      else if window < 0 then Inl ValueError
      else Inr (map (\<lambda>i. let s = (i + 1) - nat window;
                              e = i + 1;
                              win = take (e - s) (drop s xs)
                          in if min_periods \<le> length (filter (\<lambda>c. c \<noteq> None) win)
                             then func win else None)
                    [0..<length xs]))"

section \<open>Data frames in a store\<close>

text \<open>
  A DataFrame is its number of rows and its columns in order, each a name and a Series.
  DataFrames are objects: \<^verbatim>\<open>calculate_atr_percentile\<close> copies its argument and then
  assigns and drops columns of the copy in place. The store is the list of the
  DataFrames allocated so far, a reference is a position in it, and a computation takes
  the store and returns a result or an error together with the new store.
\<close>

record frame =
  nrows :: nat
  columns :: "(string \<times> series) list"

type_synonym ref = nat

type_synonym store = "frame list"

type_synonym 'a prog = "store \<Rightarrow> (error + 'a) \<times> store"

definition succeed :: "'a \<Rightarrow> 'a prog" where
  "succeed x h = (Inr x, h)"

text \<open>A pure step that may raise.\<close>

definition lift :: "error + 'a \<Rightarrow> 'a prog" where
  "lift r h = (r, h)"

text \<open>Sequencing: an error ends the computation, with the store as it is then.\<close>

definition pbind :: "'a prog \<Rightarrow> ('a \<Rightarrow> 'b prog) \<Rightarrow> 'b prog" where
  "pbind m k h = (case m h of (Inl e, h') \<Rightarrow> (Inl e, h') | (Inr x, h') \<Rightarrow> k x h')"

text \<open>\<^verbatim>\<open>df.copy()\<close>: a new DataFrame with the same rows and columns.\<close>

definition df_copy :: "ref \<Rightarrow> ref prog" where
  "df_copy df h = (Inr (length h), h @ [h ! df])"

text \<open>\<^verbatim>\<open>df[name]\<close>: the column, or \<^verbatim>\<open>KeyError\<close> when there is none of that name.\<close>

definition getitem :: "ref \<Rightarrow> string \<Rightarrow> series prog" where
  "getitem df name h =
     (case map_of (columns (h ! df)) name of
        None \<Rightarrow> (Inl KeyError, h)
      | Some col \<Rightarrow> (Inr col, h))"

text \<open>\<^verbatim>\<open>df[name] = col\<close>: replaces the column of that name where it stands, or appends
  a new column after the others.\<close>

definition setitem :: "ref \<Rightarrow> string \<Rightarrow> series \<Rightarrow> unit prog" where
  "setitem df name col h =
     (Inr (), h[df := (h ! df)\<lparr>columns := AList.update name col (columns (h ! df))\<rparr>])"

text \<open>\<^verbatim>\<open>df.drop(names, axis=1, inplace=True)\<close>: removes the named columns, or raises
  \<^verbatim>\<open>KeyError\<close> when one of them is not a column.\<close>

definition drop_columns :: "ref \<Rightarrow> string list \<Rightarrow> unit prog" where
  "drop_columns df names h =
     (if list_all (\<lambda>n. map_of (columns (h ! df)) n \<noteq> None) names
      then (Inr (), h[df := (h ! df)\<lparr>columns := filter (\<lambda>(n, c). n \<notin> set names) (columns (h ! df))\<rparr>])
      else (Inl KeyError, h))"

section \<open>The indicator\<close>

text \<open>\<^verbatim>\<open>calculate_atr_percentile(df, atr_length, lookback_days)\<close>, statement by statement
  (lines 17 to 43). The result is the reference of the copy.\<close>

definition calculate_atr_percentile :: "ref \<Rightarrow> int \<Rightarrow> int \<Rightarrow> ref prog" where
  "calculate_atr_percentile df0 atr_length lookback_days =
     pbind (df_copy df0) (\<lambda>df.
     pbind (getitem df ''High'') (\<lambda>high.
     pbind (getitem df ''Low'') (\<lambda>low.
     pbind (setitem df ''tr1'' (series_sub high low)) (\<lambda>_.
     pbind (getitem df ''High'') (\<lambda>high.
     pbind (getitem df ''Close'') (\<lambda>close.
     pbind (setitem df ''tr2'' (series_abs (series_sub high (shift1 close)))) (\<lambda>_.
     pbind (getitem df ''Low'') (\<lambda>low.
     pbind (getitem df ''Close'') (\<lambda>close.
     pbind (setitem df ''tr3'' (series_abs (series_sub low (shift1 close)))) (\<lambda>_.
     pbind (getitem df ''tr1'') (\<lambda>tr1.
     pbind (getitem df ''tr2'') (\<lambda>tr2.
     pbind (getitem df ''tr3'') (\<lambda>tr3.
     pbind (setitem df ''tr'' (row_max3 tr1 tr2 tr3)) (\<lambda>_.
     pbind (getitem df ''tr'') (\<lambda>tr.
     pbind (lift (atr_smooth atr_length tr)) (\<lambda>atr.
     pbind (setitem df ''atr'' atr) (\<lambda>_.
     pbind (getitem df ''atr'') (\<lambda>atr.
     pbind (lift (rolling_apply lookback_days 20 percentile_rank atr)) (\<lambda>pct.
     pbind (setitem df ''atr_percentile'' pct) (\<lambda>_.
     pbind (drop_columns df [''tr1'', ''tr2'', ''tr3'', ''tr'']) (\<lambda>_.
     succeed df)))))))))))))))))))))"


subsection \<open>The score\<close>

text \<open>
  \<^verbatim>\<open>round(x, ndigits)\<close> on a numpy double: the double is multiplied by \<open>10 ^ ndigits\<close>,
  the product is rounded to an integer by \<^verbatim>\<open>rint\<close>, and that is divided by
  \<open>10 ^ ndigits\<close>; the product and the quotient are operations of doubles.
\<close>

definition py_round :: "float64 \<Rightarrow> nat \<Rightarrow> float64" where
  "py_round x ndigits = rint (x * dbl (10 ^ ndigits)) / dbl (10 ^ ndigits)"

text \<open>
  \<^verbatim>\<open>get_atr_score(df)\<close> (lines 45 to 63). The argument is \<^verbatim>\<open>None\<close> or a DataFrame, which
  the function only reads. A returned component is \<open>None\<close> for Python's \<^verbatim>\<open>None\<close> and
  \<open>Some c\<close> for a float \<open>c\<close>. \<^verbatim>\<open>latest.get(name, None)\<close> is the last value of the column,
  or \<^verbatim>\<open>None\<close> when there is no such column; \<^verbatim>\<open>pd.isna\<close> holds of \<^verbatim>\<open>None\<close> and of NaN;
  \<^verbatim>\<open>round(None, 4)\<close> raises \<^verbatim>\<open>TypeError\<close>, and rounding NaN gives NaN.
\<close>

definition get_atr_score :: "frame option \<Rightarrow> error + (int \<times> cell option \<times> cell option)" where
  "get_atr_score df =
     (case df of
        None \<Rightarrow> Inr (0, None, None)
      | Some f \<Rightarrow>
          if nrows f = 0 then Inr (0, None, None)
          else
            (let latest = (\<lambda>name. map_option last (map_of (columns f) name));
                 atr_percentile = latest ''atr_percentile'';
                 atr_value = latest ''atr''
             in case atr_percentile of
                  None \<Rightarrow> Inr (0, None, None)
                | Some None \<Rightarrow> Inr (0, None, None)
                | Some (Some p) \<Rightarrow>
                    (let score = (if p > dbl 50 then 1 else 0)
                     in case atr_value of
                          None \<Rightarrow> Inl TypeError
                        | Some a \<Rightarrow>
                            Inr (score, Some (Some (py_round p 1)),
                                 Some (map_option (\<lambda>x. py_round x 4) a)))))"

section \<open>Definitions used in the statements and proofs\<close>

subsection \<open>The rolling percentile as the specification words it\<close>

text \<open>The window of index \<open>i\<close>: the trailing slice of the ATR series that ends at \<open>i\<close>
  inclusive and has length \<open>min (i + 1) W\<close>.\<close>

definition spec_window :: "nat \<Rightarrow> 'a list \<Rightarrow> nat \<Rightarrow> 'a list" where
  "spec_window W atr i = (let n = min (i + 1) W in take n (drop (i + 1 - n) atr))"

text \<open>Undefined when the window is shorter than \<open>M\<close>; otherwise 100 times the quotient of
  the number of elements of the window that are at most \<open>atr ! i\<close> by the window's
  length.\<close>

definition spec_percentile :: "nat \<Rightarrow> nat \<Rightarrow> float64 list \<Rightarrow> nat \<Rightarrow> cell" where
  "spec_percentile W M atr i =
     (let window = spec_window W atr i
      in if length window < M then None
         else Some (float_of_nat (length (filter (\<lambda>x. x \<le> atr ! i) window))
                    / float_of_nat (length window) * dbl 100))"

subsection \<open>Closed forms of the smoother and of the result columns\<close>

text \<open>One step of the kernel on numbers, with weight \<open>w\<close> of the past and weight \<open>a\<close> of
  the new value: the previous mean \<open>p\<close> is kept when the new value equals it.\<close>

definition ewm_step :: "float64 \<Rightarrow> float64 \<Rightarrow> float64 \<Rightarrow> float64 \<Rightarrow> float64" where
  "ewm_step w a p c = (if p \<noteq> c then (w * p + a * c) / (w + a) else p)"

text \<open>The means that follow the mean \<open>p\<close>.\<close>

fun ema_from :: "float64 \<Rightarrow> float64 \<Rightarrow> float64 \<Rightarrow> float64 list \<Rightarrow> float64 list" where
  "ema_from w a p [] = []"
| "ema_from w a p (t # ts) = ewm_step w a p t # ema_from w a (ewm_step w a p t) ts"

text \<open>The weight of the new value that the kernel uses for a period \<open>L\<close>, from
  \<^verbatim>\<open>alpha = 1 / L\<close> through the centre of mass \<^verbatim>\<open>(1 - alpha) / alpha\<close>.\<close>

definition kernel_alpha :: "int \<Rightarrow> float64" where
  "kernel_alpha L = 1 / (1 + (1 - dbl (1 / real_of_int L)) / dbl (1 / real_of_int L))"

definition temp_columns :: "string list" where
  "temp_columns = [''tr1'', ''tr2'', ''tr3'', ''tr'']"

text \<open>The columns of the copy after line 23.\<close>

definition with_true_range ::
  "(string \<times> series) list \<Rightarrow> series \<Rightarrow> series \<Rightarrow> series \<Rightarrow> (string \<times> series) list" where
  "with_true_range cols high low close =
     AList.update ''tr'' (true_range high low close)
       (AList.update ''tr3'' (series_abs (series_sub low (shift1 close)))
          (AList.update ''tr2'' (series_abs (series_sub high (shift1 close)))
             (AList.update ''tr1'' (series_sub high low) cols)))"

text \<open>The columns of the copy after line 41.\<close>

definition result_columns ::
  "(string \<times> series) list \<Rightarrow> series \<Rightarrow> series \<Rightarrow> series \<Rightarrow> series \<Rightarrow> series
     \<Rightarrow> (string \<times> series) list" where
  "result_columns cols high low close atr pct =
     filter (\<lambda>(n, c). n \<notin> set temp_columns)
       (AList.update ''atr_percentile'' pct
          (AList.update ''atr'' atr (with_true_range cols high low close)))"

text \<open>A computation is local to the DataFrame \<open>d\<close> when it allocates nothing and changes
  no other DataFrame of the store.\<close>

definition frame_local :: "ref \<Rightarrow> 'a prog \<Rightarrow> bool" where
  "frame_local d m =
     (\<forall>h. length (snd (m h)) = length h \<and> (\<forall>r. r \<noteq> d \<longrightarrow> snd (m h) ! r = h ! r))"

subsection \<open>Concrete inputs\<close>

definition bars2 :: frame where
  "bars2 = \<lparr>nrows = 2, columns = [(''High'', [Some (dbl 12), Some (dbl 15)]),
      (''Low'', [Some (dbl 10), Some (dbl 11)]), (''Close'', [Some (dbl 11), Some (dbl 14)])]\<rparr>"

definition bars_tr :: frame where
  "bars_tr = \<lparr>nrows = 1, columns = [(''High'', [Some (dbl 12)]), (''Low'', [Some (dbl 10)]),
      (''Close'', [Some (dbl 11)]), (''tr'', [Some (dbl 7)])]\<rparr>"

definition scored :: "real \<Rightarrow> frame" where
  "scored p = \<lparr>nrows = 2, columns = [(''Close'', [Some (dbl 10), Some (dbl 11)]),
      (''atr'', [Some (dbl 1), Some (dbl (1 / 4000))]),
      (''atr_percentile'', [None, Some (dbl p)])]\<rparr>"

section \<open>Properties of rounding\<close>

lemma pow2_pos [simp]: "0 < (2::real) powi k"
  by simp

lemma expo_bounds:
  assumes "x \<noteq> 0"
  shows "2 powi expo x \<le> \<bar>x\<bar>" and "\<bar>x\<bar> < 2 powi (expo x + 1)"
proof -
  have pos: "0 < \<bar>x\<bar>" using assms by simp
  have p: "(2::real) powi k = 2 powr real_of_int k" for k
    by (simp add: powr_real_of_int')
  have "real_of_int (expo x) \<le> log 2 \<bar>x\<bar>" by (simp add: expo_def)
  then have "2 powr real_of_int (expo x) \<le> 2 powr log 2 \<bar>x\<bar>" by simp
  then show "2 powi expo x \<le> \<bar>x\<bar>" using pos by (simp add: p)
  have "log 2 \<bar>x\<bar> < real_of_int (expo x + 1)" by (simp add: expo_def)
  then have "2 powr log 2 \<bar>x\<bar> < 2 powr real_of_int (expo x + 1)" by simp
  then show "\<bar>x\<bar> < 2 powi (expo x + 1)" using pos by (simp add: p del: of_int_add)
qed

lemma expo_unique:
  assumes "2 powi e \<le> \<bar>x\<bar>" "\<bar>x\<bar> < 2 powi (e + 1)"
  shows "expo x = e"
proof -
  have pos: "0 < \<bar>x\<bar>" using assms(1) pow2_pos [of e] by linarith
  have p: "(2::real) powi k = 2 powr real_of_int k" for k
    by (simp add: powr_real_of_int')
  have "log 2 (2 powr real_of_int e) \<le> log 2 \<bar>x\<bar>"
    using assms(1) pos by (subst log_le_cancel_iff) (simp_all add: p)
  then have 1: "real_of_int e \<le> log 2 \<bar>x\<bar>" by simp
  have "log 2 \<bar>x\<bar> < log 2 (2 powr real_of_int (e + 1))"
    using assms(2) pos by (subst log_less_cancel_iff) (simp_all add: p del: of_int_add)
  then have 2: "log 2 \<bar>x\<bar> < real_of_int e + 1" by simp
  from 1 2 show ?thesis unfolding expo_def by (simp add: floor_unique)
qed

lemma round_half_even_near: "\<bar>real_of_int (round_half_even x) - x\<bar> \<le> 1 / 2"
proof -
  have "real_of_int \<lfloor>x\<rfloor> \<le> x" "x < real_of_int \<lfloor>x\<rfloor> + 1" by linarith+
  then show ?thesis by (auto simp: round_half_even_def Let_def)
qed

lemma round_half_even_int [simp]: "round_half_even (real_of_int n) = n"
  by (simp add: round_half_even_def)

lemma round_half_even_le:
  assumes "x \<le> real_of_int n"
  shows "round_half_even x \<le> n"
proof (rule ccontr)
  assume "\<not> round_half_even x \<le> n"
  then have g: "n + 1 \<le> round_half_even x" by simp
  then have "real_of_int n + 1 \<le> real_of_int (round_half_even x)"
    by (metis of_int_1 of_int_add of_int_le_iff)
  with round_half_even_near [of x] assms have "x = real_of_int n" by linarith
  with g show False by simp
qed

lemma round_half_even_ge:
  assumes "real_of_int n \<le> x"
  shows "n \<le> round_half_even x"
proof (rule ccontr)
  assume "\<not> n \<le> round_half_even x"
  then have g: "round_half_even x \<le> n - 1" by simp
  then have "real_of_int (round_half_even x) \<le> real_of_int n - 1"
    by (metis of_int_1 of_int_diff of_int_le_iff)
  with round_half_even_near [of x] assms have "x = real_of_int n" by linarith
  with g show False by simp
qed

lemma round_half_even_mono:
  assumes "x \<le> y"
  shows "round_half_even x \<le> round_half_even y"
proof (rule ccontr)
  assume "\<not> round_half_even x \<le> round_half_even y"
  then have "round_half_even y + 1 \<le> round_half_even x" by simp
  then have g: "real_of_int (round_half_even y) + 1 \<le> real_of_int (round_half_even x)"
    by (metis of_int_1 of_int_add of_int_le_iff)
  with round_half_even_near [of x] round_half_even_near [of y] assms
  have "x = y" by linarith
  with g show False by simp
qed

lemma fl_zero [simp]: "fl 0 = 0"
  by (simp add: fl_def)

lemma fl_eval:
  assumes "2 powi e \<le> \<bar>x\<bar>" "\<bar>x\<bar> < 2 powi (e + 1)"
  shows "fl x = real_of_int (round_half_even (x / 2 powi (e - 52))) * 2 powi (e - 52)"
proof -
  have "0 < \<bar>x\<bar>" using assms(1) pow2_pos [of e] by linarith
  then have "x \<noteq> 0" by simp
  then show ?thesis by (simp add: fl_def expo_unique [OF assms])
qed

lemma pow2_less_iff: "(2::real) powi a < 2 powi b \<longleftrightarrow> a < b"
proof
  assume l: "(2::real) powi a < 2 powi b"
  show "a < b"
  proof (rule ccontr)
    assume "\<not> a < b"
    then have "b \<le> a" by simp
    then have "(2::real) powi b \<le> 2 powi a" by (intro power_int_increasing) simp_all
    with l show False by simp
  qed
next
  assume "a < b"
  then show "(2::real) powi a < 2 powi b" by (intro power_int_strict_increasing) simp_all
qed

lemma pow2_le_iff: "(2::real) powi a \<le> 2 powi b \<longleftrightarrow> a \<le> b"
  using pow2_less_iff [of b a] by (auto simp: not_less [symmetric])

lemma pow2_split: "(2::real) powi (a + b) = 2 powi a * 2 powi b"
  by (simp add: power_int_add)

lemma pow2_int: "0 \<le> k \<Longrightarrow> \<exists>n::int. (2::real) powi k = real_of_int n"
proof -
  assume "0 \<le> k"
  then have "(2::real) powi k = real_of_int (2 ^ nat k)" by (simp add: power_int_nonneg_exp)
  then show ?thesis by blast
qed

text \<open>A number with fewer than 54 significant bits is a double.\<close>

lemma fl_dyadic:
  assumes "\<bar>k\<bar> < 2 ^ 53"
  shows "fl (real_of_int k * 2 powi j) = real_of_int k * 2 powi j"
proof (cases "k = 0")
  case True
  then show ?thesis by simp
next
  case False
  define x where "x = real_of_int k * 2 powi j"
  have x0: "x \<noteq> 0" using False by (simp add: x_def)
  define e where "e = expo x"
  have ax: "\<bar>x\<bar> = real_of_int \<bar>k\<bar> * 2 powi j" by (simp add: x_def abs_mult)
  have "real_of_int \<bar>k\<bar> < 2 ^ 53" using assms
    by (metis of_int_less_iff of_int_numeral of_int_power)
  then have "\<bar>x\<bar> < 2 ^ 53 * 2 powi j" by (simp add: ax)
  also have "\<dots> = 2 powi (53 + j)" by (simp add: pow2_split)
  finally have up: "\<bar>x\<bar> < 2 powi (53 + j)" .
  have "2 powi e \<le> \<bar>x\<bar>" using expo_bounds(1) [OF x0] by (simp add: e_def)
  with up have "(2::real) powi e < 2 powi (53 + j)" by linarith
  then have le: "e < 53 + j" by (simp add: pow2_less_iff)
  then have nn: "0 \<le> j - (e - 52)" by simp
  from pow2_int [OF nn] obtain n :: int where n: "(2::real) powi (j - (e - 52)) = real_of_int n"
    by blast
  have "x / 2 powi (e - 52) = real_of_int k * 2 powi (j - (e - 52))"
    by (simp add: x_def power_int_diff)
  also have "\<dots> = real_of_int (k * n)" by (simp add: n)
  finally have q: "x / 2 powi (e - 52) = real_of_int (k * n)" .
  have "fl x = real_of_int (round_half_even (x / 2 powi (e - 52))) * 2 powi (e - 52)"
    using x0 by (simp add: fl_def e_def)
  also have "\<dots> = (x / 2 powi (e - 52)) * 2 powi (e - 52)"
    unfolding q round_half_even_int ..
  also have "\<dots> = x" by simp
  finally show ?thesis by (simp add: x_def)
qed

lemma fl_mantissa:
  assumes "x \<noteq> 0"
  obtains m :: int where "fl x = real_of_int m * 2 powi (expo x - 52)"
    and "2 ^ 52 \<le> \<bar>m\<bar>" and "\<bar>m\<bar> \<le> 2 ^ 53" and "0 < x \<Longrightarrow> 0 < m" and "x < 0 \<Longrightarrow> m < 0"
proof -
  define u :: real where "u = 2 powi (expo x - 52)"
  define m where "m = round_half_even (x / u)"
  have u: "0 < u" by (simp add: u_def)
  have f: "fl x = real_of_int m * 2 powi (expo x - 52)"
    using assms by (simp add: fl_def m_def u_def)
  have s: "(2::real) powi expo x = 2 ^ 52 * u" "(2::real) powi (expo x + 1) = 2 ^ 53 * u"
    by (simp_all add: u_def power_int_diff power_int_add)
  from expo_bounds(1) [OF assms] have "2 ^ 52 * u \<le> \<bar>x\<bar>" unfolding s .
  then have lo: "2 ^ 52 \<le> \<bar>x\<bar> / u" using u by (simp add: field_simps)
  from expo_bounds(2) [OF assms] have "\<bar>x\<bar> < 2 ^ 53 * u" unfolding s .
  then have hi: "\<bar>x\<bar> / u < 2 ^ 53" using u by (simp add: field_simps)
  show thesis
  proof (cases "0 < x")
    case True
    then have a: "real_of_int (2 ^ 52) \<le> x / u" and b: "x / u \<le> real_of_int (2 ^ 53)"
      using lo hi by simp_all
    have "2 ^ 52 \<le> m" "m \<le> 2 ^ 53"
      unfolding m_def using round_half_even_ge [OF a] round_half_even_le [OF b] by simp_all
    with True f show thesis by (intro that [of m]) simp_all
  next
    case False
    with assms have neg: "x < 0" by simp
    then have "\<bar>x\<bar> / u = - (x / u)" by simp
    with lo hi have a: "x / u \<le> real_of_int (- (2 ^ 52))"
      and b: "real_of_int (- (2 ^ 53)) \<le> x / u"
      by simp_all
    have "m \<le> - (2 ^ 52)" "- (2 ^ 53) \<le> m"
      unfolding m_def using round_half_even_le [OF a] round_half_even_ge [OF b] by simp_all
    with neg f show thesis by (intro that [of m]) simp_all
  qed
qed

lemma fl_fl [simp]: "fl (fl x) = fl x"
proof (cases "x = 0")
  case True
  then show ?thesis by simp
next
  case False
  from fl_mantissa [OF False] obtain m :: int
    where f: "fl x = real_of_int m * 2 powi (expo x - 52)"
      and b: "2 ^ 52 \<le> \<bar>m\<bar>" "\<bar>m\<bar> \<le> 2 ^ 53"
    by blast
  show ?thesis
  proof (cases "\<bar>m\<bar> < 2 ^ 53")
    case True
    from fl_dyadic [OF True] show ?thesis by (simp add: f)
  next
    case False
    with b have "m = 2 ^ 53 \<or> m = - (2 ^ 53)" by linarith
    then have "fl x = real_of_int 1 * 2 powi (expo x + 1) \<or> fl x = real_of_int (- 1) * 2 powi (expo x + 1)"
      by (auto simp: f power_int_diff power_int_add)
    then show ?thesis
      using fl_dyadic [of 1 "expo x + 1"] fl_dyadic [of "- 1" "expo x + 1"] by auto
  qed
qed

lemma to_real_dbl [simp]: "to_real (dbl x) = fl x"
  by (simp add: dbl_def Abs_float64_inverse)

lemma fl_to_real [simp]: "fl (to_real a) = to_real a"
  using to_real [of a] by simp

lemma dbl_to_real [simp]: "dbl (to_real a) = a"
  by (simp add: dbl_def to_real_inverse)

lemma float64_eq_iff: "a = b \<longleftrightarrow> to_real a = to_real b"
  by (simp add: to_real_inject)

lemma fl_pos: "0 < x \<Longrightarrow> 0 < fl x"
proof -
  assume p: "0 < x"
  then have "x \<noteq> 0" by simp
  from fl_mantissa [OF this] p obtain m :: int
    where "fl x = real_of_int m * 2 powi (expo x - 52)" "0 < m" by blast
  then show ?thesis by simp
qed


lemma fl_bounds_pos:
  assumes "0 < x"
  shows "2 powi expo x \<le> fl x" and "fl x \<le> 2 powi (expo x + 1)"
proof -
  from assms have "x \<noteq> 0" by simp
  from fl_mantissa [OF this] assms obtain m :: int
    where f: "fl x = real_of_int m * 2 powi (expo x - 52)"
      and b: "2 ^ 52 \<le> \<bar>m\<bar>" "\<bar>m\<bar> \<le> 2 ^ 53" "0 < m"
    by blast
  have s: "(2::real) powi expo x = 2 ^ 52 * 2 powi (expo x - 52)"
    "(2::real) powi (expo x + 1) = 2 ^ 53 * 2 powi (expo x - 52)"
    by (simp_all add: power_int_diff power_int_add)
  from b have "2 ^ 52 \<le> m" "m \<le> 2 ^ 53" by simp_all
  then have m: "2 ^ 52 \<le> real_of_int m" "real_of_int m \<le> 2 ^ 53"
    by (metis of_int_le_iff of_int_numeral of_int_power)+
  show "2 powi expo x \<le> fl x" unfolding f s using m(1) by (intro mult_right_mono) simp_all
  show "fl x \<le> 2 powi (expo x + 1)" unfolding f s using m(2) by (intro mult_right_mono) simp_all
qed

lemma expo_mono:
  assumes "0 < x" "x \<le> y"
  shows "expo x \<le> expo y"
proof -
  have "log 2 \<bar>x\<bar> \<le> log 2 \<bar>y\<bar>" using assms by simp
  then show ?thesis unfolding expo_def by (rule floor_mono)
qed

text \<open>Rounding keeps the order of positive numbers.\<close>

lemma fl_mono_pos:
  assumes "0 < x" "x \<le> y"
  shows "fl x \<le> fl y"
proof (cases "expo x = expo y")
  case True
  have x0: "x \<noteq> 0" "y \<noteq> 0" using assms by simp_all
  have "x / 2 powi (expo y - 52) \<le> y / 2 powi (expo y - 52)"
    using assms(2) by (simp add: divide_right_mono)
  then have "round_half_even (x / 2 powi (expo y - 52)) \<le> round_half_even (y / 2 powi (expo y - 52))"
    by (rule round_half_even_mono)
  then have "real_of_int (round_half_even (x / 2 powi (expo y - 52)))
      \<le> real_of_int (round_half_even (y / 2 powi (expo y - 52)))"
    by simp
  then show ?thesis using x0 by (simp add: fl_def True)
next
  case False
  with expo_mono [OF assms] have "expo x + 1 \<le> expo y" by simp
  then have "(2::real) powi (expo x + 1) \<le> 2 powi expo y" by (simp add: pow2_le_iff)
  moreover have "0 < y" using assms by simp
  ultimately show ?thesis
    using fl_bounds_pos(2) [OF assms(1)] fl_bounds_pos(1) [of y] by linarith
qed

lemma fl_int:
  assumes "\<bar>k\<bar> \<le> 2 ^ 53"
  shows "fl (real_of_int k) = real_of_int k"
proof (cases "\<bar>k\<bar> < 2 ^ 53")
  case True
  from fl_dyadic [OF True, of 0] show ?thesis by simp
next
  case False
  with assms have "k = 2 ^ 53 \<or> k = - (2 ^ 53)" by linarith
  then have "real_of_int k = real_of_int 1 * 2 powi 53 \<or> real_of_int k = real_of_int (- 1) * 2 powi 53"
    by auto
  then show ?thesis
    using fl_dyadic [of 1 53] fl_dyadic [of "- 1" 53] by auto
qed

lemma fl_numeral [simp]: "numeral n \<le> (2::int) ^ 53 \<Longrightarrow> fl (numeral n) = numeral n"
  using fl_int [of "numeral n"] by simp

lemma fl_one [simp]: "fl 1 = 1"
  using fl_int [of 1] by simp

lemma fl_of_nat:
  assumes "n \<le> 2 ^ 53"
  shows "fl (real n) = real n"
proof -
  have "int n \<le> 2 ^ 53" using assms by (metis of_nat_le_iff of_nat_numeral of_nat_power)
  then have "\<bar>int n\<bar> \<le> 2 ^ 53" by simp
  from fl_int [OF this] show ?thesis by simp
qed

lemma fl_half [simp]: "fl (1 / 2) = 1 / 2"
  using fl_dyadic [of 1 "- 1"] by (simp add: power_int_minus_divide)

lemma fl_le_one: "0 < x \<Longrightarrow> x \<le> 1 \<Longrightarrow> fl x \<le> 1"
  using fl_mono_pos [of x 1] by simp

text \<open>Doubles through their values.\<close>

lemma to_real_zero [simp]: "to_real 0 = 0"
  by (simp add: zero_float64_def)

lemma to_real_one [simp]: "to_real 1 = 1"
  by (simp add: one_float64_def)

lemma to_real_plus [simp]: "to_real (a + b) = fl (to_real a + to_real b)"
  by (simp add: plus_float64_def)

lemma to_real_minus [simp]: "to_real (a - b) = fl (to_real a - to_real b)"
  by (simp add: minus_float64_def)

lemma to_real_times [simp]: "to_real (a * b) = fl (to_real a * to_real b)"
  by (simp add: times_float64_def)

lemma to_real_divide [simp]: "to_real (a / b) = fl (to_real a / to_real b)"
  by (simp add: divide_float64_def)

lemma to_real_abs [simp]: "to_real \<bar>a\<bar> = fl \<bar>to_real a\<bar>"
  by (simp add: abs_float64_def)

lemma to_real_float_of_nat [simp]: "to_real (float_of_nat n) = fl (real n)"
  by (simp add: float_of_nat_def)

lemma to_real_rint [simp]: "to_real (rint a) = fl (real_of_int (round_half_even (to_real a)))"
  by (simp add: rint_def)

lemma dbl_eq_iff: "dbl x = dbl y \<longleftrightarrow> fl x = fl y"
  by (simp add: float64_eq_iff)

lemma to_real_max: "to_real (max a b) = max (to_real a) (to_real b)"
  by (simp add: max_def less_eq_float64_def)

text \<open>Operations with zero and one are exact.\<close>

lemma float64_exact [simp]:
  "(1::float64) - 1 = 0" "(0::float64) / 1 = 0" "(1::float64) + 0 = 1" "(1::float64) / 1 = 1"
  "(0::float64) + 1 = 1" "(1::float64) * a = a" "(0::float64) * a = 0" "(0::float64) + a = a"
  "a / (1::float64) = a"
  by (simp_all add: float64_eq_iff)

text \<open>Arithmetic on the doubles nearest to given numbers.\<close>

lemma fl_neg_numeral [simp]: "numeral n \<le> (2::int) ^ 53 \<Longrightarrow> fl (- numeral n) = - numeral n"
  using fl_int [of "- numeral n"] by simp

lemma dbl_plus: "dbl x + dbl y = dbl (fl x + fl y)"
  by (simp add: float64_eq_iff)

lemma dbl_minus: "dbl x - dbl y = dbl (fl x - fl y)"
  by (simp add: float64_eq_iff)

lemma dbl_times: "dbl x * dbl y = dbl (fl x * fl y)"
  by (simp add: float64_eq_iff)

lemma dbl_divide: "dbl x / dbl y = dbl (fl x / fl y)"
  by (simp add: float64_eq_iff)

lemma dbl_abs: "\<bar>dbl x\<bar> = dbl \<bar>fl x\<bar>"
  by (simp add: float64_eq_iff)

lemma dbl_le: "dbl x \<le> dbl y \<longleftrightarrow> fl x \<le> fl y"
  by (simp add: less_eq_float64_def)

lemma dbl_less: "dbl x < dbl y \<longleftrightarrow> fl x < fl y"
  by (simp add: less_float64_def)

lemma dbl_max: "max (dbl x) (dbl y) = (if fl x \<le> fl y then dbl y else dbl x)"
  by (simp add: max_def dbl_le)

lemma dbl_zero: "(0::float64) = dbl 0"
  by (simp add: zero_float64_def)

lemma dbl_one: "(1::float64) = dbl 1"
  by (simp add: one_float64_def)

lemmas dbl_arith =
  dbl_plus dbl_minus dbl_times dbl_divide dbl_abs dbl_le dbl_less dbl_max dbl_eq_iff

section \<open>True Range\<close>

lemma shift1_nth:
  "i < length cs \<Longrightarrow> shift1 (map Some cs) ! i = (if i = 0 then None else Some (cs ! (i - 1)))"
  by (cases i) (simp_all add: shift1_def)

lemma length_shift1: "length (shift1 xs) = length xs"
  by (simp add: shift1_def)

lemma length_true_range:
  "length high = n \<Longrightarrow> length low = n \<Longrightarrow> length close = n \<Longrightarrow>
   length (true_range high low close) = n"
  by (simp add: true_range_def row_max3_def series_sub_def series_abs_def length_shift1)

text \<open>
  Claim C3. For a price series of length \<open>n \<ge> 1\<close> (columns High, Low and Close of
  numbers), the True Range series has length \<open>n\<close>, its element 0 is
  \<open>High[0] - Low[0]\<close>, and for every index \<open>i > 0\<close> its element \<open>i\<close> is
  \<open>max(High[i] - Low[i], |High[i] - Close[i-1]|, |Low[i] - Close[i-1]|)\<close>. The
  differences are those of doubles, as the code computes them.
\<close>

theorem true_range_values:
  assumes "length hs = n" "length ls = n" "length cs = n" "1 \<le> n"
  shows "length (true_range (map Some hs) (map Some ls) (map Some cs)) = n
    \<and> true_range (map Some hs) (map Some ls) (map Some cs) ! 0 = Some (hs ! 0 - ls ! 0)
    \<and> (\<forall>i. 0 < i \<and> i < n \<longrightarrow>
          true_range (map Some hs) (map Some ls) (map Some cs) ! i =
            Some (max (max (hs ! i - ls ! i) \<bar>hs ! i - cs ! (i - 1)\<bar>) \<bar>ls ! i - cs ! (i - 1)\<bar>))"
proof -
  have len: "length (true_range (map Some hs) (map Some ls) (map Some cs)) = n"
    using assms by (simp add: length_true_range)
  have nth: "true_range (map Some hs) (map Some ls) (map Some cs) ! i =
      cell_max (cell_max (Some (hs ! i - ls ! i))
                  (map_option abs (cell_sub (Some (hs ! i)) (shift1 (map Some cs) ! i))))
               (map_option abs (cell_sub (Some (ls ! i)) (shift1 (map Some cs) ! i)))"
    if "i < n" for i
    using that assms
    by (simp add: true_range_def row_max3_def series_sub_def series_abs_def length_shift1
        cell_sub_def)
  have zero: "true_range (map Some hs) (map Some ls) (map Some cs) ! 0 = Some (hs ! 0 - ls ! 0)"
    using assms nth [of 0] by (simp add: shift1_nth cell_sub_def cell_max_def)
  have pos: "true_range (map Some hs) (map Some ls) (map Some cs) ! i =
      Some (max (max (hs ! i - ls ! i) \<bar>hs ! i - cs ! (i - 1)\<bar>) \<bar>ls ! i - cs ! (i - 1)\<bar>)"
    if "0 < i" "i < n" for i
    using that assms nth [of i] by (simp add: shift1_nth cell_sub_def cell_max_def)
  from len zero pos show ?thesis by blast
qed

theorem true_range_values_witness:
  "true_range (map Some [dbl 10, dbl 12]) (map Some [dbl 8, dbl 9]) (map Some [dbl 9, dbl 11]) ! 0
     = Some (dbl 2)
   \<and> true_range (map Some [dbl 10, dbl 12]) (map Some [dbl 8, dbl 9]) (map Some [dbl 9, dbl 11]) ! 1
     = Some (dbl 3)"
  using true_range_values [of "[dbl 10, dbl 12]" 2 "[dbl 8, dbl 9]" "[dbl 9, dbl 11]"]
  by (simp add: dbl_arith)

section \<open>The ATR smoother\<close>

text \<open>Evaluating the rounding of a given number: with its exponent \<open>e\<close> and its rounded
  mantissa \<open>m\<close>.\<close>

lemma fl_at:
  assumes "2 powi e \<le> \<bar>x\<bar>" "\<bar>x\<bar> < 2 powi (e + 1)"
    and "round_half_even (x / 2 powi (e - 52)) = m"
    and "real_of_int m * 2 powi (e - 52) = y"
  shows "fl x = y"
  using fl_eval [OF assms(1,2)] assms(3,4) by simp

lemma py_truediv_valid:
  assumes "1 \<le> L" "L \<le> 2 ^ 1022"
  shows "py_truediv 1 L = Inr (dbl (1 / real_of_int L))"
proof -
  have pos: "0 < real_of_int L" using assms(1) by simp
  have "real_of_int L \<le> 2 ^ 1022"
    using assms(2) by (metis of_int_le_iff of_int_numeral of_int_power)
  then have "1 / 2 ^ 1022 \<le> 1 / real_of_int L"
    using pos by (simp add: field_simps)
  then have big: "\<not> \<bar>1 / real_of_int L\<bar> < 2 powi (- 1022)"
    using pos by (simp add: power_int_minus_divide)
  have "0 < 1 / real_of_int L" "1 / real_of_int L \<le> 1" using assms(1) by simp_all
  then have "0 < fl (1 / real_of_int L)" "fl (1 / real_of_int L) \<le> 1"
    by (simp_all add: fl_pos fl_le_one)
  then have small: "\<not> 2 ^ 1024 \<le> \<bar>fl (1 / real_of_int L)\<bar>" by simp
  show ?thesis using assms(1) big small by (simp add: py_truediv_def Let_def)
qed

lemma alpha_valid:
  assumes "1 \<le> L"
  shows "get_center_of_mass (dbl (1 / real_of_int L))
    = Inr ((1 - dbl (1 / real_of_int L)) / dbl (1 / real_of_int L))"
proof -
  have "0 < 1 / real_of_int L" "1 / real_of_int L \<le> 1" using assms by simp_all
  then have "0 < fl (1 / real_of_int L)" "fl (1 / real_of_int L) \<le> 1"
    by (simp_all add: fl_pos fl_le_one)
  then show ?thesis
    by (simp add: get_center_of_mass_def less_eq_float64_def less_float64_def not_le not_less)
qed

lemma length_ema_from: "length (ema_from w a p ts) = length ts"
  by (induction ts arbitrary: p) simp_all

text \<open>On a series without NaN the weight of the past is reset at every step, so the loop
  applies the same step to each value.\<close>

lemma ewm_loop_defined:
  "ewm_loop w a (Some p) 1 (map Some ts) = map Some (ema_from w a p ts)"
  by (induction ts arbitrary: p) (simp_all add: Let_def ewm_step_def)

lemma ema_from_step:
  "i < length ts \<Longrightarrow>
   (p # ema_from w a p ts) ! Suc i = ewm_step w a ((p # ema_from w a p ts) ! i) (ts ! i)"
proof (induction ts arbitrary: p i)
  case Nil
  then show ?case by simp
next
  case (Cons t ts)
  show ?case
  proof (cases i)
    case 0
    then show ?thesis by simp
  next
    case (Suc j)
    with Cons.prems have "j < length ts" by simp
    from Cons.IH [OF this, of "ewm_step w a p t"] Suc show ?thesis by simp
  qed
qed

lemma atr_smooth_defined:
  assumes "1 \<le> L" "L \<le> 2 ^ 1022"
  shows "atr_smooth L (map Some tr) =
    Inr (map Some (case tr of [] \<Rightarrow> []
                   | t # ts \<Rightarrow> t # ema_from (1 - kernel_alpha L) (kernel_alpha L) t ts))"
  by (cases tr)
     (simp_all add: atr_smooth_def py_truediv_valid [OF assms] ewm_mean_def
        alpha_valid [OF assms(1)] Let_def ewm_loop_defined kernel_alpha_def)

text \<open>In exact arithmetic the kernel's weights are \<open>\<alpha>\<close> and \<open>1 - \<alpha>\<close>, they sum to one, and
  its step is the recursion \<open>\<alpha> * c + (1 - \<alpha>) * p\<close>; in doubles the two can differ in the last
  bit.\<close>

lemma alpha_roundtrip: "0 < a \<Longrightarrow> 1 / (1 + (1 - a) / a) = (a::real)"
  by (simp add: field_simps)

lemma ewm_step_exact:
  "(if p \<noteq> c then ((1 - a) * p + a * c) / ((1 - a) + a) else p) = a * c + (1 - a) * (p::real)"
  by (simp add: algebra_simps)

text \<open>
  Claim C2, as amended. For every True Range series of numbers and every integer period
  \<open>L\<close> from 1 to \<open>2 ^ 1022\<close>, the smoothing step returns an ATR series of numbers of the
  same length with \<open>ATR[0] = TrueRange[0]\<close> and, for every \<open>i \<ge> 1\<close>, \<open>ATR[i] = ATR[i-1]\<close> when
  \<open>TrueRange[i]\<close> equals \<open>ATR[i-1]\<close> and otherwise
  \<open>ATR[i] = (w * ATR[i-1] + a * TrueRange[i]) / (w + a)\<close>, evaluated in doubles, where
  \<open>a = 1 / (1 + (1 - \<alpha>) / \<alpha>)\<close> and \<open>w = 1 - a\<close> are computed in doubles from the double
  \<open>\<alpha> = 1 / L\<close>.
\<close>

theorem atr_recursion:
  assumes "1 \<le> L" "L \<le> 2 ^ 1022"
  shows "\<exists>atr. atr_smooth L (map Some tr) = Inr (map Some atr)
    \<and> length atr = length tr
    \<and> (0 < length tr \<longrightarrow> atr ! 0 = tr ! 0)
    \<and> (\<forall>i. 1 \<le> i \<and> i < length tr \<longrightarrow>
          atr ! i =
            (if atr ! (i - 1) \<noteq> tr ! i
             then ((1 - kernel_alpha L) * atr ! (i - 1) + kernel_alpha L * tr ! i)
                  / ((1 - kernel_alpha L) + kernel_alpha L)
             else atr ! (i - 1)))
    \<and> kernel_alpha L = 1 / (1 + (1 - dbl (1 / real_of_int L)) / dbl (1 / real_of_int L))"
proof (cases tr)
  case Nil
  then show ?thesis using atr_smooth_defined [OF assms, of tr] by (simp add: kernel_alpha_def)
next
  case (Cons t ts)
  define a where "a = kernel_alpha L"
  define atr where "atr = t # ema_from (1 - a) a t ts"
  have run: "atr_smooth L (map Some tr) = Inr (map Some atr)"
    using atr_smooth_defined [OF assms, of tr] by (simp add: Cons atr_def a_def)
  have len: "length atr = length tr"
    by (simp add: atr_def Cons length_ema_from)
  have seed: "atr ! 0 = tr ! 0"
    by (simp add: atr_def Cons)
  have step: "atr ! i =
      (if atr ! (i - 1) \<noteq> tr ! i
       then ((1 - a) * atr ! (i - 1) + a * tr ! i) / ((1 - a) + a)
       else atr ! (i - 1))"
    if "1 \<le> i" "i < length tr" for i
  proof -
    from that obtain j where j: "i = Suc j" by (cases i) simp_all
    with that have "j < length ts" by (simp add: Cons)
    from ema_from_step [OF this, of t "1 - a" a] show ?thesis
      by (simp add: atr_def Cons j ewm_step_def)
  qed
  from run len seed step show ?thesis unfolding a_def by (auto simp: kernel_alpha_def)
qed

lemma kernel_alpha_2: "kernel_alpha 2 = dbl (1 / 2)"
  by (simp add: kernel_alpha_def dbl_arith dbl_one)

theorem atr_recursion_witness:
  "atr_smooth 2 [Some (dbl 4), Some (dbl 8), Some (dbl 2)]
     = Inr [Some (dbl 4), Some (dbl 6), Some (dbl 4)]"
proof -
  have "(1::int) \<le> 2" "(2::int) \<le> 2 ^ 1022" by simp_all
  from atr_recursion [OF this, of "[dbl 4, dbl 8, dbl 2]"]
  obtain atr where a: "atr_smooth 2 (map Some [dbl 4, dbl 8, dbl 2]) = Inr (map Some atr)"
    and l: "length atr = 3"
    and z: "atr ! 0 = dbl 4"
    and s: "\<And>i. 1 \<le> i \<Longrightarrow> i < 3 \<Longrightarrow> atr ! i =
            (if atr ! (i - 1) \<noteq> [dbl 4, dbl 8, dbl 2] ! i
             then ((1 - kernel_alpha 2) * atr ! (i - 1) + kernel_alpha 2 * [dbl 4, dbl 8, dbl 2] ! i)
                  / ((1 - kernel_alpha 2) + kernel_alpha 2)
             else atr ! (i - 1))"
    by auto
  from s [of 1] z have one: "atr ! 1 = dbl 6"
    by (simp add: kernel_alpha_2 dbl_arith dbl_one)
  from s [of 2] one have two: "atr ! 2 = dbl 4"
    by (simp add: kernel_alpha_2 dbl_arith dbl_one numeral_2_eq_2)
  have "atr = [atr ! 0, atr ! 1, atr ! 2]"
    using l by (auto simp: list_eq_iff_nth_eq less_Suc_eq numeral_3_eq_3 numeral_2_eq_2)
  with z one two have "atr = [dbl 4, dbl 6, dbl 4]" by simp
  with a show ?thesis by simp
qed

text \<open>
  Claim C9. For every True Range series of numbers, the smoothing step with period
  \<open>L = 1\<close> returns the True Range series itself: \<open>ATR[i] = TrueRange[i]\<close> at every index.
\<close>

theorem atr_length_one_identity:
  "atr_smooth 1 (map Some tr) = Inr (map Some tr)"
proof -
  have loop: "ewm_loop 0 1 (Some p) 1 (map Some ts) = map Some ts" for p ts
    by (induction ts arbitrary: p) (simp_all add: Let_def)
  have div: "py_truediv 1 1 = Inr 1"
    by (simp add: py_truediv_def Let_def power_int_minus_divide one_float64_def)
  have com: "get_center_of_mass 1 = Inr 0"
    by (simp add: get_center_of_mass_def less_eq_float64_def less_float64_def)
  show ?thesis
    by (cases tr) (simp_all add: atr_smooth_def div ewm_mean_def com Let_def loop)
qed

text \<open>The roundings that occur in the run of the kernel with period 3 on the values 3
  and 6.\<close>

lemma k3_1: "fl (1 / 3) = 6004799503160661 / 18014398509481984"
  by (rule fl_at [where e = "- 2" and m = "6004799503160661"])
     (simp_all add: round_half_even_def Let_def)

lemma k3_2: "fl (12009599006321323 / 18014398509481984) = 3002399751580331 / 4503599627370496"
  by (rule fl_at [where e = "- 1" and m = "6004799503160662"])
     (simp_all add: round_half_even_def Let_def)

lemma k3_3: "fl (12009599006321324 / 6004799503160661) = 4503599627370497 / 2251799813685248"
  by (rule fl_at [where e = "1" and m = "4503599627370497"])
     (simp_all add: round_half_even_def Let_def)

lemma k3_4: "fl (6755399441055745 / 2251799813685248) = 6755399441055745 / 2251799813685248"
  by (rule fl_at [where e = "1" and m = "6755399441055745"])
     (simp_all add: round_half_even_def Let_def)

lemma k3_5: "fl (2251799813685248 / 6755399441055745) = 1501199875790165 / 4503599627370496"
  by (rule fl_at [where e = "- 2" and m = "6004799503160660"])
     (simp_all add: round_half_even_def Let_def)

lemma k3_6: "fl (3002399751580331 / 4503599627370496) = 3002399751580331 / 4503599627370496"
  by (rule fl_at [where e = "- 1" and m = "6004799503160662"])
     (simp_all add: round_half_even_def Let_def)

lemma k3_7: "fl (9007199254740993 / 4503599627370496) = 2"
  by (rule fl_at [where e = "1" and m = "4503599627370496"])
     (simp_all add: round_half_even_def Let_def)

lemma k3_8: "fl (4503599627370495 / 2251799813685248) = 4503599627370495 / 2251799813685248"
  by (rule fl_at [where e = "0" and m = "9007199254740990"])
     (simp_all add: round_half_even_def Let_def)

lemma k3_9: "fl (9007199254740991 / 2251799813685248) = 9007199254740991 / 2251799813685248"
  by (rule fl_at [where e = "1" and m = "9007199254740991"])
     (simp_all add: round_half_even_def Let_def)

lemma k3_10: "fl (18014398509481983 / 9007199254740992) = 2"
  by (rule fl_at [where e = "0" and m = "9007199254740992"])
     (simp_all add: round_half_even_def Let_def)

lemmas k3_facts = k3_1 k3_2 k3_3 k3_4 k3_5 k3_6 k3_7 k3_8 k3_9 k3_10

text \<open>
  Claim C2 as stated gives \<open>ATR[1] = \<alpha> * TrueRange[1] + (1 - \<alpha>) * ATR[0]\<close> with
  \<open>\<alpha> = 1 / L\<close>. With \<open>L = 3\<close> on the True Range values 3 and 6 that formula, evaluated in
  doubles, is 4, and the kernel returns \<open>9007199254740991 / 2251799813685248\<close>, the double
  just below 4.
\<close>

theorem kernel_differs_from_recursion:
  "atr_smooth 3 [Some (dbl 3), Some (dbl 6)]
     = Inr [Some (dbl 3), Some (dbl (9007199254740991 / 2251799813685248))]
   \<and> dbl (1 / 3) * dbl 6 + (1 - dbl (1 / 3)) * dbl 3 = dbl 4
   \<and> dbl (9007199254740991 / 2251799813685248) \<noteq> dbl 4"
proof -
  have div: "py_truediv 1 3 = Inr (dbl (1 / 3))"
    using py_truediv_valid [of 3] by simp
  have com: "get_center_of_mass (dbl (1 / 3)) = Inr ((1 - dbl (1 / 3)) / dbl (1 / 3))"
    using alpha_valid [of 3] by simp
  have run: "atr_smooth 3 [Some (dbl 3), Some (dbl 6)]
     = Inr [Some (dbl 3), Some (dbl (9007199254740991 / 2251799813685248))]"
    by (simp add: atr_smooth_def div ewm_mean_def com Let_def dbl_arith dbl_one k3_facts)
  have formula: "dbl (1 / 3) * dbl 6 + (1 - dbl (1 / 3)) * dbl 3 = dbl 4"
    by (simp add: dbl_arith dbl_one k3_facts)
  have differ: "dbl (9007199254740991 / 2251799813685248) \<noteq> dbl 4"
    by (simp add: dbl_arith k3_facts)
  from run formula differ show ?thesis by blast
qed

section \<open>The rolling percentile rank\<close>

lemma length_spec_window:
  "i < length atr \<Longrightarrow> length (spec_window W atr i) = min (i + 1) W"
  by (auto simp: spec_window_def Let_def min_def)

lemma last_spec_window:
  assumes "i < length atr" "0 < W"
  shows "last (spec_window W atr i) = atr ! i"
proof -
  define n where "n = min (i + 1) W"
  have n: "0 < n" "n \<le> i + 1" using assms by (simp_all add: n_def)
  have len: "length (take n (drop (i + 1 - n) atr)) = n"
    using assms n by simp
  then have ne: "take n (drop (i + 1 - n) atr) \<noteq> []" using n by auto
  have "last (take n (drop (i + 1 - n) atr)) = take n (drop (i + 1 - n) atr) ! (n - 1)"
    using last_conv_nth [OF ne] len by simp
  also have "\<dots> = atr ! i" using n assms by simp
  finally show ?thesis by (simp add: spec_window_def n_def Let_def)
qed

text \<open>The slice that pandas passes to \<^verbatim>\<open>percentile_rank\<close> is the window of the
  specification.\<close>

lemma code_window:
  "0 \<le> W \<Longrightarrow> take (i + 1 - (i + 1 - nat W)) (drop (i + 1 - nat W) (map Some atr))
     = map Some (spec_window (nat W) atr i)"
proof -
  have "i + 1 - (i + 1 - nat W) = min (i + 1) (nat W)" by (simp add: min_def)
  moreover have "i + 1 - nat W = i + 1 - min (i + 1) (nat W)" by (simp add: min_def)
  ultimately show ?thesis
    by (simp add: spec_window_def Let_def take_map drop_map del: One_nat_def)
qed

lemma filter_not_nan: "filter (\<lambda>c. c \<noteq> None) (map Some xs) = map Some xs"
  by (induction xs) simp_all

lemma percentile_rank_window:
  assumes "i < length atr" "20 \<le> W"
  shows "(if 20 \<le> length (spec_window W atr i)
          then percentile_rank (map Some (spec_window W atr i)) else None)
     = spec_percentile W 20 atr i"
proof (cases "20 \<le> length (spec_window W atr i)")
  case False
  then show ?thesis by (simp add: spec_percentile_def Let_def)
next
  case True
  then have ne: "spec_window W atr i \<noteq> []" by auto
  have l: "last (map Some (spec_window W atr i)) = Some (atr ! i)"
    using last_spec_window [of i atr W] assms ne by (simp add: last_map)
  show ?thesis using True
    by (simp add: percentile_rank_def spec_percentile_def Let_def l filter_map comp_def
        cell_le_def)
qed

lemma rolling_rank_defined:
  assumes "20 \<le> W"
  shows "rolling_apply W 20 percentile_rank (map Some atr) =
     Inr (map (spec_percentile (nat W) 20 atr) [0..<length atr])"
proof -
  have W: "0 \<le> W" "20 \<le> nat W" using assms by simp_all
  have "(let s = (i + 1) - nat W; e = i + 1; win = take (e - s) (drop s (map Some atr))
         in if 20 \<le> length (filter (\<lambda>c. c \<noteq> None) win) then percentile_rank win else None)
        = spec_percentile (nat W) 20 atr i" if "i < length atr" for i
    unfolding Let_def code_window [OF W(1)] filter_not_nan length_map
    using percentile_rank_window [OF that W(2)] .
  then show ?thesis using assms by (simp add: rolling_apply_def del: One_nat_def)
qed

text \<open>A window smaller than the minimum sample count is refused when the rolling object
  is built, which is the error that the contract of the ranker lists for \<open>W < M\<close>.\<close>

lemma rolling_short_window: "W < 20 \<Longrightarrow> rolling_apply W 20 f xs = Inl ValueError"
  by (simp add: rolling_apply_def)

text \<open>
  Claim C1. For every ATR series of numbers of length \<open>N\<close> and every lookback window
  size \<open>W\<close> that the contract of the ranker admits, \<open>W \<ge> M\<close> with the minimum sample count
  \<open>M = 20\<close>, the rolling step returns a percentile series of length \<open>N\<close> whose element at
  each index \<open>i\<close> is computed over the trailing window that ends at \<open>i\<close> inclusive and has
  length \<open>min (i + 1) W\<close>: undefined when that length is below 20, and otherwise 100 times
  the quotient of the number of window elements that are at most \<open>ATR[i]\<close> by the window
  length, the quotient and the product being those of doubles.
\<close>

theorem rolling_percentile_values:
  assumes "20 \<le> W"
  shows "\<exists>ps. rolling_apply W 20 percentile_rank (map Some atr) = Inr ps
    \<and> length ps = length atr
    \<and> (\<forall>i. i < length atr \<longrightarrow>
          length (spec_window (nat W) atr i) = min (i + 1) (nat W)
          \<and> ps ! i =
              (if length (spec_window (nat W) atr i) < 20 then None
               else Some (float_of_nat (length (filter (\<lambda>x. x \<le> atr ! i) (spec_window (nat W) atr i)))
                          / float_of_nat (length (spec_window (nat W) atr i)) * dbl 100)))"
proof -
  define ps where "ps = map (spec_percentile (nat W) 20 atr) [0..<length atr]"
  have run: "rolling_apply W 20 percentile_rank (map Some atr) = Inr ps"
    unfolding ps_def using assms by (rule rolling_rank_defined)
  have len: "length ps = length atr" by (simp add: ps_def)
  have nth: "length (spec_window (nat W) atr i) = min (i + 1) (nat W)
      \<and> ps ! i =
          (if length (spec_window (nat W) atr i) < 20 then None
           else Some (float_of_nat (length (filter (\<lambda>x. x \<le> atr ! i) (spec_window (nat W) atr i)))
                      / float_of_nat (length (spec_window (nat W) atr i)) * dbl 100))"
    if "i < length atr" for i
    using that by (simp add: ps_def spec_percentile_def Let_def length_spec_window)
  from run len nth show ?thesis by blast
qed

text \<open>The roundings in \<open>11 / 20 * 100\<close>: the quotient is rounded before it is multiplied,
  and the result is the double just above 55.\<close>

lemma p55_1: "fl (11 / 20) = 2476979795053773 / 4503599627370496"
  by (rule fl_at [where e = "- 1" and m = "4953959590107546"])
     (simp_all add: round_half_even_def Let_def)

lemma p55_2: "fl (61924494876344325 / 1125899906842624) = 7740561859543041 / 140737488355328"
  by (rule fl_at [where e = "5" and m = "7740561859543041"])
     (simp_all add: round_half_even_def Let_def)

lemma p55_3: "fl (7740561859543041 / 140737488355328) = 7740561859543041 / 140737488355328"
  by (rule fl_at [where e = "5" and m = "7740561859543041"])
     (simp_all add: round_half_even_def Let_def)

lemma rank_11_of_20:
  "float_of_nat 11 / float_of_nat 20 * dbl 100 = dbl (7740561859543041 / 140737488355328)"
  by (simp add: float_of_nat_def dbl_arith p55_1 p55_2 p55_3)

theorem rolling_percentile_values_witness:
  "\<exists>ps. rolling_apply 20 20 percentile_rank
          (map Some (map dbl [1, 2, 3, 4, 5, 1, 2, 3, 4, 5, 6, 7, 8, 9, 10, 6, 7, 8, 9, 5])) = Inr ps
     \<and> length ps = 20 \<and> ps ! 0 = None \<and> ps ! 18 = None
     \<and> ps ! 19 = Some (dbl (7740561859543041 / 140737488355328))"
proof -
  define atr where
    "atr = map dbl [1, 2, 3, 4, 5, 1, 2, 3, 4, 5, 6, 7, 8, 9, 10, 6, 7, 8, 9, 5]"
  have "(20::int) \<le> 20" by simp
  from rolling_percentile_values [OF this, of atr]
  obtain ps where r: "rolling_apply 20 20 percentile_rank (map Some atr) = Inr ps"
    and l: "length ps = length atr"
    and v: "\<And>i. i < length atr \<Longrightarrow> ps ! i =
        (if length (spec_window 20 atr i) < 20 then None
         else Some (float_of_nat (length (filter (\<lambda>x. x \<le> atr ! i) (spec_window 20 atr i)))
                    / float_of_nat (length (spec_window 20 atr i)) * dbl 100))"
    by auto
  have n: "length atr = 20" by (simp add: atr_def)
  have "ps ! 0 = None" using v [of 0] by (simp add: atr_def spec_window_def)
  moreover have "ps ! 18 = None" using v [of 18] by (simp add: atr_def spec_window_def)
  moreover have "ps ! 19 = Some (dbl (7740561859543041 / 140737488355328))"
  proof -
    have w: "spec_window 20 atr 19 = atr" by (simp add: atr_def spec_window_def)
    have c: "length (filter (\<lambda>x. x \<le> atr ! 19) atr) = 11"
      by (simp add: atr_def dbl_le)
    have "ps ! 19 = Some (float_of_nat 11 / float_of_nat 20 * dbl 100)"
      using v [of 19] unfolding w c n by simp
    then show ?thesis by (simp only: rank_11_of_20)
  qed
  ultimately show ?thesis using r l n unfolding atr_def by auto
qed

lemma spec_percentile_bounds:
  assumes "i < length atr" "20 \<le> min (i + 1) W"
  shows "\<exists>p. spec_percentile W 20 atr i = Some p \<and> 0 < p \<and> p \<le> dbl 100
     \<and> ((\<forall>x \<in> set (spec_window W atr i). x = atr ! i) \<longrightarrow> p = dbl 100)"
proof -
  define win where "win = spec_window W atr i"
  define k where "k = length (filter (\<lambda>x. x \<le> atr ! i) win)"
  define p where "p = float_of_nat k / float_of_nat (length win) * dbl 100"
  have len: "length win = min (i + 1) W"
    using assms by (simp add: win_def length_spec_window)
  then have n20: "20 \<le> length win" using assms by simp
  then have lpos: "0 < length win" by linarith
  then have ne: "win \<noteq> []" by simp
  have "last win = atr ! i"
    using assms last_spec_window [of i atr W] by (simp add: win_def)
  then have "atr ! i \<in> set win" using last_in_set [OF ne] by simp
  then have "filter (\<lambda>x. x \<le> atr ! i) win \<noteq> []"
    by (auto simp: filter_empty_conv)
  then have kpos: "0 < k" by (simp add: k_def)
  have kle: "k \<le> length win" by (simp add: k_def)
  have val: "spec_percentile W 20 atr i = Some p"
    using n20 by (simp add: spec_percentile_def win_def [symmetric] k_def p_def Let_def)
  have a: "0 < fl (real k)" using kpos by (simp add: fl_pos)
  have ab: "fl (real k) \<le> fl (real (length win))"
    using kpos kle by (intro fl_mono_pos) simp_all
  then have b: "0 < fl (real (length win))" using a by linarith
  have q0: "0 < fl (real k) / fl (real (length win))" using a b by simp
  have q1: "fl (real k) / fl (real (length win)) \<le> 1" using ab b by simp
  have r0: "0 < fl (fl (real k) / fl (real (length win)))" using q0 by (rule fl_pos)
  have r1: "fl (fl (real k) / fl (real (length win))) \<le> 1" using q0 q1 by (rule fl_le_one)
  have tp: "to_real p = fl (fl (fl (real k) / fl (real (length win))) * 100)"
    by (simp add: p_def)
  have p0: "0 < to_real p"
    unfolding tp using r0 by (intro fl_pos) simp
  have "fl (fl (fl (real k) / fl (real (length win))) * 100) \<le> fl 100"
    using r0 r1 by (intro fl_mono_pos) simp_all
  then have p1: "to_real p \<le> 100" by (simp add: tp)
  have p3: "to_real p = 100" if "\<forall>x \<in> set win. x = atr ! i"
  proof -
    from that have "filter (\<lambda>x. x \<le> atr ! i) win = win" by (simp add: filter_id_conv)
    then have "k = length win" by (simp add: k_def)
    then have "fl (real k) / fl (real (length win)) = 1" using b by simp
    then show ?thesis by (simp add: tp)
  qed
  have 1: "0 < p" using p0 by (simp add: less_float64_def)
  have 2: "p \<le> dbl 100" using p1 by (simp add: less_eq_float64_def)
  have 3: "p = dbl 100" if "\<forall>x \<in> set win. x = atr ! i"
    using p3 [OF that] by (simp add: float64_eq_iff)
  from val 1 2 3 show ?thesis unfolding win_def by blast
qed

text \<open>
  Claim C5. For every ATR series of numbers and every index \<open>i\<close> whose trailing window
  has length \<open>min (i + 1) W\<close> at least 20, the rolling step returns a series whose
  element \<open>i\<close> is defined and lies in the half-open interval \<open>(0, 100]\<close>; when every
  element of the window equals \<open>ATR[i]\<close> it is exactly 100.
\<close>

theorem percentile_in_range:
  assumes "i < length atr" "20 \<le> min (i + 1) (nat W)"
  shows "\<exists>ps p. rolling_apply W 20 percentile_rank (map Some atr) = Inr ps
     \<and> ps ! i = Some p \<and> 0 < p \<and> p \<le> dbl 100
     \<and> ((\<forall>x \<in> set (spec_window (nat W) atr i). x = atr ! i) \<longrightarrow> p = dbl 100)"
proof -
  have W: "20 \<le> W" using assms(2) by linarith
  have "map (spec_percentile (nat W) 20 atr) [0..<length atr] ! i = spec_percentile (nat W) 20 atr i"
    using assms(1) by simp
  with rolling_rank_defined [OF W, of atr] spec_percentile_bounds [OF assms]
  show ?thesis by auto
qed

theorem percentile_in_range_witness:
  "\<exists>ps. rolling_apply 20 20 percentile_rank (map Some (replicate 20 (dbl 3))) = Inr ps
     \<and> ps ! 19 = Some (dbl 100)"
proof -
  have a: "19 < length (replicate 20 (dbl 3))" by simp
  have b: "20 \<le> min (19 + 1) (nat 20)" by simp
  from percentile_in_range [OF a b] obtain ps p
    where r: "rolling_apply 20 20 percentile_rank (map Some (replicate 20 (dbl 3))) = Inr ps"
      and p: "ps ! 19 = Some p"
      and tie: "(\<forall>x \<in> set (spec_window (nat 20) (replicate 20 (dbl 3)) 19).
                  x = replicate 20 (dbl 3) ! 19) \<longrightarrow> p = dbl 100"
    by blast
  have "x = replicate 20 (dbl 3) ! 19"
    if "x \<in> set (spec_window (nat 20) (replicate 20 (dbl 3)) 19)" for x
    using that by (auto simp: spec_window_def Let_def dest!: in_set_takeD in_set_dropD)
  with tie have "p = dbl 100" by blast
  with r p show ?thesis by blast
qed

section \<open>The function on the store\<close>

subsection \<open>Only the copy is written\<close>

lemma frame_local_succeed: "frame_local d (succeed x)"
  by (simp add: frame_local_def succeed_def)

lemma frame_local_lift: "frame_local d (lift r)"
  by (simp add: frame_local_def lift_def)

lemma frame_local_getitem: "frame_local d (getitem d name)"
  by (simp add: frame_local_def getitem_def split: option.splits)

lemma frame_local_setitem: "frame_local d (setitem d name col)"
  by (simp add: frame_local_def setitem_def)

lemma frame_local_drop: "frame_local d (drop_columns d names)"
  by (simp add: frame_local_def drop_columns_def)

lemma frame_local_pbind:
  assumes "frame_local d m" "\<And>x. frame_local d (k x)"
  shows "frame_local d (pbind m k)"
proof -
  have "length (snd (pbind m k h)) = length h \<and> (\<forall>r. r \<noteq> d \<longrightarrow> snd (pbind m k h) ! r = h ! r)"
    for h
  proof (cases "m h")
    case (Pair res h')
    from assms(1) have m: "length h' = length h" "\<And>r. r \<noteq> d \<Longrightarrow> h' ! r = h ! r"
      using Pair by (auto simp: frame_local_def dest: spec [of _ h])
    show ?thesis
    proof (cases res)
      case (Inl e)
      then show ?thesis using Pair m by (simp add: pbind_def)
    next
      case (Inr x)
      from assms(2) [of x] have "length (snd (k x h')) = length h'"
        "\<And>r. r \<noteq> d \<Longrightarrow> snd (k x h') ! r = h' ! r"
        by (auto simp: frame_local_def)
      then show ?thesis using Pair Inr m by (simp add: pbind_def)
    qed
  qed
  then show ?thesis by (simp add: frame_local_def)
qed

lemmas frame_local_intros =
  frame_local_pbind frame_local_succeed frame_local_lift frame_local_getitem
  frame_local_setitem frame_local_drop

lemma copy_then_local:
  assumes "\<And>df. frame_local df (body df)" "r < length h"
  shows "snd (pbind (df_copy df0) body h) ! r = h ! r
    \<and> length (snd (pbind (df_copy df0) body h)) = Suc (length h)"
proof -
  have run: "pbind (df_copy df0) body h = body (length h) (h @ [h ! df0])"
    by (simp add: pbind_def df_copy_def)
  from assms(1) [of "length h"] have
    l: "length (snd (body (length h) (h @ [h ! df0]))) = length (h @ [h ! df0])"
    and k: "\<And>r. r \<noteq> length h \<Longrightarrow>
      snd (body (length h) (h @ [h ! df0])) ! r = (h @ [h ! df0]) ! r"
    by (auto simp: frame_local_def)
  from k [of r] l assms(2) show ?thesis
    by (simp add: run nth_append)
qed

text \<open>Whatever the outcome, every DataFrame that existed before the call is as it was.\<close>

lemma calculate_keeps_store:
  assumes "r < length h"
  shows "snd (calculate_atr_percentile df0 L W h) ! r = h ! r
    \<and> length (snd (calculate_atr_percentile df0 L W h)) = Suc (length h)"
  unfolding calculate_atr_percentile_def
  by (rule copy_then_local [OF _ assms]) (intro frame_local_intros)

subsection \<open>Running the statements\<close>

lemma pbind_getitem:
  "map_of (columns (h ! df)) name = Some col \<Longrightarrow> pbind (getitem df name) k h = k col h"
  by (simp add: pbind_def getitem_def)

lemma pbind_getitem_missing:
  "map_of (columns (h ! df)) name = None \<Longrightarrow> pbind (getitem df name) k h = (Inl KeyError, h)"
  by (simp add: pbind_def getitem_def)

lemma pbind_setitem_last:
  "pbind (setitem (length h) name col) k (h @ [f]) =
     k () (h @ [f\<lparr>columns := AList.update name col (columns f)\<rparr>])"
  by (simp add: pbind_def setitem_def)

lemma pbind_lift_Inr: "pbind (lift (Inr x)) k h = k x h"
  by (simp add: pbind_def lift_def)

lemma pbind_lift_Inl: "pbind (lift (Inl e)) k h = (Inl e, h)"
  by (simp add: pbind_def lift_def)

lemma pbind_df_copy: "pbind (df_copy df0) k h = k (length h) (h @ [h ! df0])"
  by (simp add: pbind_def df_copy_def)

lemma pbind_drop_last:
  "list_all (\<lambda>n. map_of (columns f) n \<noteq> None) names \<Longrightarrow>
   pbind (drop_columns (length h) names) k (h @ [f]) =
     k () (h @ [f\<lparr>columns := filter (\<lambda>(n, c). n \<notin> set names) (columns f)\<rparr>])"
  by (simp add: pbind_def drop_columns_def)

text \<open>Lines 17 to 23: with the three price columns present, the copy holds the True
  Range columns and the smoothing step runs on \<open>true_range high low close\<close>.\<close>

lemma calculate_to_smoothing:
  assumes "map_of (columns (h ! df0)) ''High'' = Some high"
    and "map_of (columns (h ! df0)) ''Low'' = Some low"
    and "map_of (columns (h ! df0)) ''Close'' = Some close"
  shows "calculate_atr_percentile df0 L W h =
     pbind (lift (atr_smooth L (true_range high low close))) (\<lambda>atr.
     pbind (setitem (length h) ''atr'' atr) (\<lambda>_.
     pbind (getitem (length h) ''atr'') (\<lambda>atr.
     pbind (lift (rolling_apply W 20 percentile_rank atr)) (\<lambda>pct.
     pbind (setitem (length h) ''atr_percentile'' pct) (\<lambda>_.
     pbind (drop_columns (length h) [''tr1'', ''tr2'', ''tr3'', ''tr'']) (\<lambda>_.
     succeed (length h)))))))
       (h @ [(h ! df0)\<lparr>columns := with_true_range (columns (h ! df0)) high low close\<rparr>])"
  unfolding calculate_atr_percentile_def pbind_df_copy
  using assms
  by (simp add: pbind_getitem pbind_setitem_last update_conv' with_true_range_def true_range_def)

lemma calculate_missing_column:
  assumes "map_of (columns (h ! df0)) ''High'' = None
    \<or> map_of (columns (h ! df0)) ''Low'' = None
    \<or> map_of (columns (h ! df0)) ''Close'' = None"
  shows "fst (calculate_atr_percentile df0 L W h) = Inl KeyError"
proof (cases "map_of (columns (h ! df0)) ''High''")
  case None
  then show ?thesis
    unfolding calculate_atr_percentile_def pbind_df_copy
    by (simp add: pbind_getitem_missing)
next
  case high: (Some high)
  show ?thesis
  proof (cases "map_of (columns (h ! df0)) ''Low''")
    case None
    then show ?thesis
      unfolding calculate_atr_percentile_def pbind_df_copy
      using high by (simp add: pbind_getitem pbind_getitem_missing)
  next
    case low: (Some low)
    with high assms have "map_of (columns (h ! df0)) ''Close'' = None" by simp
    then show ?thesis
      unfolding calculate_atr_percentile_def pbind_df_copy
      using high low
      by (simp add: pbind_getitem pbind_setitem_last pbind_getitem_missing update_conv')
  qed
qed

lemma calculate_run:
  assumes "map_of (columns (h ! df0)) ''High'' = Some high"
    and "map_of (columns (h ! df0)) ''Low'' = Some low"
    and "map_of (columns (h ! df0)) ''Close'' = Some close"
    and "atr_smooth L (true_range high low close) = Inr atr"
    and "rolling_apply W 20 percentile_rank atr = Inr pct"
  shows "calculate_atr_percentile df0 L W h =
     (Inr (length h),
      h @ [(h ! df0)\<lparr>columns := result_columns (columns (h ! df0)) high low close atr pct\<rparr>])"
  unfolding calculate_to_smoothing [OF assms(1-3)] assms(4) pbind_lift_Inr pbind_setitem_last
  by (simp add: pbind_getitem pbind_setitem_last pbind_lift_Inr pbind_drop_last assms(5)
      update_conv' with_true_range_def result_columns_def temp_columns_def succeed_def)

lemma calculate_smoothing_error:
  assumes "map_of (columns (h ! df0)) ''High'' = Some high"
    and "map_of (columns (h ! df0)) ''Low'' = Some low"
    and "map_of (columns (h ! df0)) ''Close'' = Some close"
    and "atr_smooth L (true_range high low close) = Inl e"
  shows "calculate_atr_percentile df0 L W h =
     (Inl e, h @ [(h ! df0)\<lparr>columns := with_true_range (columns (h ! df0)) high low close\<rparr>])"
  unfolding calculate_to_smoothing [OF assms(1-3)] assms(4) pbind_lift_Inl
  by simp

lemma calculate_rolling_error:
  assumes "map_of (columns (h ! df0)) ''High'' = Some high"
    and "map_of (columns (h ! df0)) ''Low'' = Some low"
    and "map_of (columns (h ! df0)) ''Close'' = Some close"
    and "atr_smooth L (true_range high low close) = Inr atr"
    and "rolling_apply W 20 percentile_rank atr = Inl e"
  shows "fst (calculate_atr_percentile df0 L W h) = Inl e"
  unfolding calculate_to_smoothing [OF assms(1-3)] assms(4) pbind_lift_Inr pbind_setitem_last
  by (simp add: pbind_getitem pbind_lift_Inl assms(5) update_conv')

lemma calculate_returned:
  assumes "map_of (columns (h ! df0)) ''High'' = Some high"
    and "map_of (columns (h ! df0)) ''Low'' = Some low"
    and "map_of (columns (h ! df0)) ''Close'' = Some close"
    and "calculate_atr_percentile df0 L W h = (Inr df, h')"
  shows "\<exists>atr pct. atr_smooth L (true_range high low close) = Inr atr
     \<and> rolling_apply W 20 percentile_rank atr = Inr pct
     \<and> df = length h
     \<and> h' = h @ [(h ! df0)\<lparr>columns := result_columns (columns (h ! df0)) high low close atr pct\<rparr>]"
proof (cases "atr_smooth L (true_range high low close)")
  case (Inl e)
  from calculate_smoothing_error [OF assms(1-3) Inl, of W] assms(4) show ?thesis by simp
next
  case (Inr atr)
  show ?thesis
  proof (cases "rolling_apply W 20 percentile_rank atr")
    case (Inl e)
    from calculate_rolling_error [OF assms(1-3) Inr Inl] assms(4) show ?thesis by simp
  next
    case pct: (Inr pct)
    from calculate_run [OF assms(1-3) Inr pct] assms(4) Inr pct show ?thesis by simp
  qed
qed

subsection \<open>Lengths and outcomes of the steps\<close>

lemma length_ewm_loop: "length (ewm_loop f n w o' xs) = length xs"
  by (induction xs arbitrary: w o') (simp_all add: Let_def split: option.splits)

lemma length_ewm_mean: "ewm_mean a xs = Inr ys \<Longrightarrow> length ys = length xs"
  by (auto simp: ewm_mean_def Let_def length_ewm_loop split: sum.splits list.splits)

lemma length_atr_smooth: "atr_smooth L xs = Inr ys \<Longrightarrow> length ys = length xs"
  by (auto simp: atr_smooth_def length_ewm_mean split: sum.splits)

lemma length_rolling_apply: "rolling_apply W m f xs = Inr ys \<Longrightarrow> length ys = length xs"
  by (auto simp: rolling_apply_def split: if_splits)

lemma atr_smooth_returns:
  assumes "1 \<le> L" "L \<le> 2 ^ 1022"
  shows "\<exists>ys. atr_smooth L xs = Inr ys"
  by (simp add: atr_smooth_def py_truediv_valid [OF assms] ewm_mean_def
      alpha_valid [OF assms(1)])

lemma rolling_apply_returns: "int m \<le> W \<Longrightarrow> \<exists>ys. rolling_apply W m f xs = Inr ys"
  by (simp add: rolling_apply_def)





lemma map_of_filter_names:
  "map_of (filter (\<lambda>(n, c). P n) al) k = (if P k then map_of al k else None)"
  by (induction al) auto

lemma map_of_result_columns:
  "map_of (result_columns cols high low close atr pct) =
     (\<lambda>k. if k \<in> set temp_columns then None
          else if k = ''atr_percentile'' then Some pct
          else if k = ''atr'' then Some atr
          else map_of cols k)"
  by (rule ext)
     (simp add: result_columns_def map_of_filter_names update_conv' with_true_range_def
        temp_columns_def)

lemma update_fresh: "map_of al k = None \<Longrightarrow> AList.update k v al = al @ [(k, v)]"
  by (induction al) (auto split: if_splits)

lemma filter_keeps_columns:
  assumes "list_all (\<lambda>n. map_of al n = None) names"
  shows "filter (\<lambda>(n, c). n \<notin> set names) al = al"
proof -
  have "n \<notin> set names" if "(n, c) \<in> set al" for n c
  proof
    assume "n \<in> set names"
    with assms have "map_of al n = None" by (simp add: list_all_iff)
    with that show False by (metis map_of_eq_None_iff fst_conv image_eqI)
  qed
  then show ?thesis by (auto simp: filter_id_conv)
qed

text \<open>With none of the six working names among the columns, the result is the
  original columns followed by \<^verbatim>\<open>atr\<close> and \<^verbatim>\<open>atr_percentile\<close>.\<close>

lemma result_columns_fresh:
  assumes "list_all (\<lambda>n. map_of cols n = None)
     [''tr1'', ''tr2'', ''tr3'', ''tr'', ''atr'', ''atr_percentile'']"
  shows "result_columns cols high low close atr pct =
     cols @ [(''atr'', atr), (''atr_percentile'', pct)]"
proof -
  have keep: "filter (\<lambda>(n, c). n \<notin> set temp_columns) cols = cols"
    using assms by (intro filter_keeps_columns) (simp add: temp_columns_def)
  have "AList.update ''atr_percentile'' pct
          (AList.update ''atr'' atr (with_true_range cols high low close)) =
      cols @ [(''tr1'', series_sub high low),
              (''tr2'', series_abs (series_sub high (shift1 close))),
              (''tr3'', series_abs (series_sub low (shift1 close))),
              (''tr'', true_range high low close),
              (''atr'', atr), (''atr_percentile'', pct)]"
    using assms by (simp add: with_true_range_def update_fresh update_conv')
  then show ?thesis
    by (simp add: result_columns_def keep) (simp add: temp_columns_def)
qed

text \<open>The run on two bars with \<open>atr_length = 2\<close> and \<open>lookback_days = 20\<close>.\<close>

lemma bars2_columns:
  "map_of (columns ([bars2] ! 0)) ''High'' = Some [Some (dbl 12), Some (dbl 15)]"
  "map_of (columns ([bars2] ! 0)) ''Low'' = Some [Some (dbl 10), Some (dbl 11)]"
  "map_of (columns ([bars2] ! 0)) ''Close'' = Some [Some (dbl 11), Some (dbl 14)]"
  by (simp_all add: bars2_def)

lemma bars2_true_range:
  "series_sub [Some (dbl 12), Some (dbl 15)] [Some (dbl 10), Some (dbl 11)]
     = [Some (dbl 2), Some (dbl 4)]"
  "series_abs (series_sub [Some (dbl 12), Some (dbl 15)] (shift1 [Some (dbl 11), Some (dbl 14)]))
     = [None, Some (dbl 4)]"
  "series_abs (series_sub [Some (dbl 10), Some (dbl 11)] (shift1 [Some (dbl 11), Some (dbl 14)]))
     = [None, Some (dbl 0)]"
  "true_range [Some (dbl 12), Some (dbl 15)] [Some (dbl 10), Some (dbl 11)]
     [Some (dbl 11), Some (dbl 14)] = [Some (dbl 2), Some (dbl 4)]"
  by (simp_all add: true_range_def row_max3_def series_sub_def series_abs_def shift1_def
      cell_sub_def cell_max_def dbl_arith)

lemma bars2_run:
  "calculate_atr_percentile 0 2 20 [bars2] =
     (Inr 1, [bars2, \<lparr>nrows = 2, columns = [(''High'', [Some (dbl 12), Some (dbl 15)]),
        (''Low'', [Some (dbl 10), Some (dbl 11)]), (''Close'', [Some (dbl 11), Some (dbl 14)]),
        (''atr'', [Some (dbl 2), Some (dbl 3)]), (''atr_percentile'', [None, None])]\<rparr>])"
proof -
  have a: "atr_smooth 2 (true_range [Some (dbl 12), Some (dbl 15)] [Some (dbl 10), Some (dbl 11)]
        [Some (dbl 11), Some (dbl 14)]) = Inr [Some (dbl 2), Some (dbl 3)]"
    using py_truediv_valid [of 2] alpha_valid [of 2]
    by (simp add: bars2_true_range atr_smooth_def ewm_mean_def Let_def dbl_arith dbl_one)
  have p: "rolling_apply 20 20 percentile_rank [Some (dbl 2), Some (dbl 3)] = Inr [None, None]"
    by (simp add: rolling_apply_def Let_def)
  from calculate_run [OF bars2_columns a p] show ?thesis
    by (simp add: result_columns_def with_true_range_def temp_columns_def bars2_def)
qed

text \<open>A period so large that \<^verbatim>\<open>1/atr_length\<close> underflows to zero is refused by the check of
  \<^verbatim>\<open>alpha\<close>.\<close>

lemma atr_smooth_underflow:
  assumes "2 ^ 1075 \<le> L"
  shows "atr_smooth L tr = Inl ValueError"
proof -
  define q where "q = 1 / real_of_int L"
  have L: "(2::real) ^ 1075 \<le> real_of_int L"
    using assms by (metis of_int_le_iff of_int_numeral of_int_power)
  then have pos: "0 < real_of_int L" by (smt (verit) zero_less_power)
  have q0: "0 < q" using pos by (simp add: q_def)
  have "q \<le> 1 / 2 ^ 1075" using L pos by (simp add: q_def field_simps)
  then have small: "q \<le> 2 powi (- 1075)" by (simp add: power_int_minus_divide)
  have "(2::real) powi (- 1075) < 2 powi (- 1022)" by (simp only: pow2_less_iff)
  with small q0 have sub: "\<bar>q\<bar> < 2 powi (- 1022)" by simp
  have "q / 2 powi (- 1074) \<le> 2 powi (- 1075) / 2 powi (- 1074)"
    using small by (intro divide_right_mono) simp_all
  also have "\<dots> = 1 / 2" by (simp add: power_int_minus_divide)
  finally have h: "q / 2 powi (- 1074) \<le> 1 / 2" .
  have nn: "0 \<le> q / 2 powi (- 1074)" using q0 by simp
  have "\<lfloor>q / 2 powi (- 1074)\<rfloor> = 0" using h nn by (intro floor_unique) simp_all
  then have "round_half_even (q / 2 powi (- 1074)) = 0"
    using h by (simp add: round_half_even_def Let_def)
  then have "py_truediv 1 L = Inr 0"
    using sub pos by (simp add: py_truediv_def Let_def q_def [symmetric] zero_float64_def)
  then show ?thesis
    by (simp add: atr_smooth_def ewm_mean_def get_center_of_mass_def)
qed

subsection \<open>Series lengths\<close>

text \<open>
  Claim C8. For every DataFrame whose columns High, Low and Close have as many values as
  the frame has rows, the True Range series has that length; with \<open>atr_length\<close> from 1
  to \<open>2 ^ 1022\<close> (so that \<^verbatim>\<open>1/atr_length\<close> does not underflow) and
  \<open>lookback_days \<ge> 20\<close> the function returns; and whenever it returns, the ATR series
  and the percentile series of the returned frame have that length too, and the
  returned frame has as many rows as the input.
\<close>

theorem series_lengths_preserved:
  assumes "map_of (columns (h ! df0)) ''High'' = Some high"
    and "map_of (columns (h ! df0)) ''Low'' = Some low"
    and "map_of (columns (h ! df0)) ''Close'' = Some close"
    and "length high = nrows (h ! df0)"
    and "length low = nrows (h ! df0)"
    and "length close = nrows (h ! df0)"
  shows "length (true_range high low close) = nrows (h ! df0)
    \<and> (1 \<le> L \<and> L \<le> 2 ^ 1022 \<and> 20 \<le> W \<longrightarrow>
          (\<exists>df h'. calculate_atr_percentile df0 L W h = (Inr df, h')))
    \<and> (\<forall>df h'. calculate_atr_percentile df0 L W h = (Inr df, h') \<longrightarrow>
          (\<exists>atr pct. atr_smooth L (true_range high low close) = Inr atr
             \<and> rolling_apply W 20 percentile_rank atr = Inr pct
             \<and> map_of (columns (h' ! df)) ''atr'' = Some atr
             \<and> map_of (columns (h' ! df)) ''atr_percentile'' = Some pct
             \<and> length atr = nrows (h ! df0)
             \<and> length pct = nrows (h ! df0)
             \<and> nrows (h' ! df) = nrows (h ! df0)))"
proof -
  have tr: "length (true_range high low close) = nrows (h ! df0)"
    using assms(4-6) by (simp add: length_true_range)
  have ret: "\<exists>df h'. calculate_atr_percentile df0 L W h = (Inr df, h')"
    if "1 \<le> L" "L \<le> 2 ^ 1022" "20 \<le> W"
  proof -
    from atr_smooth_returns [OF that(1,2)] obtain atr
      where a: "atr_smooth L (true_range high low close) = Inr atr" by blast
    from that(3) have "int 20 \<le> W" by simp
    from rolling_apply_returns [OF this] obtain pct
      where p: "rolling_apply W 20 percentile_rank atr = Inr pct" by blast
    from calculate_run [OF assms(1-3) a p] show ?thesis by blast
  qed
  have res: "\<exists>atr pct. atr_smooth L (true_range high low close) = Inr atr
             \<and> rolling_apply W 20 percentile_rank atr = Inr pct
             \<and> map_of (columns (h' ! df)) ''atr'' = Some atr
             \<and> map_of (columns (h' ! df)) ''atr_percentile'' = Some pct
             \<and> length atr = nrows (h ! df0)
             \<and> length pct = nrows (h ! df0)
             \<and> nrows (h' ! df) = nrows (h ! df0)"
    if "calculate_atr_percentile df0 L W h = (Inr df, h')" for df h'
  proof -
    from calculate_returned [OF assms(1-3) that] obtain atr pct
      where a: "atr_smooth L (true_range high low close) = Inr atr"
        and p: "rolling_apply W 20 percentile_rank atr = Inr pct"
        and d: "df = length h"
        and h': "h' = h @ [(h ! df0)\<lparr>columns :=
                  result_columns (columns (h ! df0)) high low close atr pct\<rparr>]"
      by blast
    have la: "length atr = nrows (h ! df0)"
      using length_atr_smooth [OF a] tr by simp
    have lp: "length pct = nrows (h ! df0)"
      using length_rolling_apply [OF p] la by simp
    show ?thesis
      using a p la lp by (simp add: d h' map_of_result_columns temp_columns_def)
  qed
  from tr ret res show ?thesis by blast
qed

theorem series_lengths_preserved_witness:
  "length (true_range [Some (dbl 12), Some (dbl 15)] [Some (dbl 10), Some (dbl 11)]
      [Some (dbl 11), Some (dbl 14)]) = 2
   \<and> (\<exists>atr pct. map_of (columns (snd (calculate_atr_percentile 0 2 20 [bars2]) ! 1)) ''atr''
          = Some atr
        \<and> map_of (columns (snd (calculate_atr_percentile 0 2 20 [bars2]) ! 1)) ''atr_percentile''
          = Some pct
        \<and> length atr = 2 \<and> length pct = 2)"
proof -
  have c: "length [Some (dbl 12), Some (dbl 15)] = nrows ([bars2] ! 0)"
    "length [Some (dbl 10), Some (dbl 11)] = nrows ([bars2] ! 0)"
    "length [Some (dbl 11), Some (dbl 14)] = nrows ([bars2] ! 0)"
    by (simp_all add: bars2_def)
  have n: "nrows ([bars2] ! 0) = 2" by (simp add: bars2_def)
  from series_lengths_preserved [OF bars2_columns c, of 2 20] bars2_run show ?thesis
    unfolding n by (simp del: One_nat_def)
qed

subsection \<open>Rejection of a non-positive period\<close>




subsection \<open>The effect on the frames\<close>

text \<open>
  Claim C10, as amended. The caller's DataFrame is unmodified by every call. For every
  input DataFrame that has no column named \<^verbatim>\<open>tr1\<close>, \<^verbatim>\<open>tr2\<close>, \<^verbatim>\<open>tr3\<close>, \<^verbatim>\<open>tr\<close>, \<^verbatim>\<open>atr\<close>
  or \<^verbatim>\<open>atr_percentile\<close>, whenever the function returns, the returned frame is another
  object than the caller's, has the same number of rows, and its columns are the original
  columns in their order with their values unchanged, followed by exactly the two
  columns \<^verbatim>\<open>atr\<close> and \<^verbatim>\<open>atr_percentile\<close>; the four working columns are absent from it.
\<close>

theorem calculate_frame_effect:
  assumes "df0 < length h"
  shows "snd (calculate_atr_percentile df0 L W h) ! df0 = h ! df0
    \<and> (\<forall>df h'.
          list_all (\<lambda>n. map_of (columns (h ! df0)) n = None)
            [''tr1'', ''tr2'', ''tr3'', ''tr'', ''atr'', ''atr_percentile'']
          \<and> calculate_atr_percentile df0 L W h = (Inr df, h') \<longrightarrow>
          df \<noteq> df0
          \<and> nrows (h' ! df) = nrows (h ! df0)
          \<and> (\<exists>atr pct. columns (h' ! df) =
                columns (h ! df0) @ [(''atr'', atr), (''atr_percentile'', pct)])
          \<and> list_all (\<lambda>n. map_of (columns (h' ! df)) n = None)
                [''tr1'', ''tr2'', ''tr3'', ''tr''])"
proof -
  have keep: "snd (calculate_atr_percentile df0 L W h) ! df0 = h ! df0"
    using calculate_keeps_store [OF assms] by simp
  have res: "df \<noteq> df0
      \<and> nrows (h' ! df) = nrows (h ! df0)
      \<and> (\<exists>atr pct. columns (h' ! df) =
            columns (h ! df0) @ [(''atr'', atr), (''atr_percentile'', pct)])
      \<and> list_all (\<lambda>n. map_of (columns (h' ! df)) n = None) [''tr1'', ''tr2'', ''tr3'', ''tr'']"
    if fresh: "list_all (\<lambda>n. map_of (columns (h ! df0)) n = None)
            [''tr1'', ''tr2'', ''tr3'', ''tr'', ''atr'', ''atr_percentile'']"
      and ret: "calculate_atr_percentile df0 L W h = (Inr df, h')" for df h'
  proof -
    have "fst (calculate_atr_percentile df0 L W h) \<noteq> Inl KeyError"
      using ret by simp
    with calculate_missing_column [of h df0 L W] obtain high low close
      where c: "map_of (columns (h ! df0)) ''High'' = Some high"
        "map_of (columns (h ! df0)) ''Low'' = Some low"
        "map_of (columns (h ! df0)) ''Close'' = Some close"
      by fastforce
    from calculate_returned [OF c ret] obtain atr pct
      where d: "df = length h"
        and h': "h' = h @ [(h ! df0)\<lparr>columns :=
                  result_columns (columns (h ! df0)) high low close atr pct\<rparr>]"
      by blast
    have cols: "columns (h' ! df) = columns (h ! df0) @ [(''atr'', atr), (''atr_percentile'', pct)]"
      by (simp add: d h' result_columns_fresh [OF fresh])
    have 1: "df \<noteq> df0" using assms d by simp
    have 2: "nrows (h' ! df) = nrows (h ! df0)" by (simp add: d h')
    have 3: "list_all (\<lambda>n. map_of (columns (h' ! df)) n = None) [''tr1'', ''tr2'', ''tr3'', ''tr'']"
      using fresh by (simp add: cols)
    from 1 2 3 cols show ?thesis by blast
  qed
  from keep res show ?thesis by blast
qed

theorem calculate_frame_effect_witness:
  "snd (calculate_atr_percentile 0 2 20 [bars2]) ! 0 = bars2
   \<and> (\<exists>atr pct. columns (snd (calculate_atr_percentile 0 2 20 [bars2]) ! 1) =
         columns bars2 @ [(''atr'', atr), (''atr_percentile'', pct)])"
proof -
  have a: "(0::nat) < length [bars2]" by simp
  have b: "list_all (\<lambda>n. map_of (columns ([bars2] ! 0)) n = None)
           [''tr1'', ''tr2'', ''tr3'', ''tr'', ''atr'', ''atr_percentile'']"
    by (simp add: bars2_def)
  from calculate_frame_effect [OF a, of 2 20] b bars2_run show ?thesis
    by (simp del: One_nat_def)
qed

text \<open>
  Claim C10 as stated ranges over every input DataFrame. An input that already has a
  column named \<^verbatim>\<open>tr\<close> loses it: line 23 overwrites it and line 41 drops it, so the
  returned frame does not contain all original columns.
\<close>

theorem calculate_drops_original_tr:
  "calculate_atr_percentile 0 5 126 [bars_tr] =
     (Inr 1, [bars_tr, \<lparr>nrows = 1, columns = [(''High'', [Some (dbl 12)]),
        (''Low'', [Some (dbl 10)]), (''Close'', [Some (dbl 11)]), (''atr'', [Some (dbl 2)]),
        (''atr_percentile'', [None])]\<rparr>])
   \<and> map_of (columns bars_tr) ''tr'' = Some [Some (dbl 7)]
   \<and> map_of (columns (snd (calculate_atr_percentile 0 5 126 [bars_tr]) ! 1)) ''tr'' = None"
proof -
  have c: "map_of (columns ([bars_tr] ! 0)) ''High'' = Some [Some (dbl 12)]"
    "map_of (columns ([bars_tr] ! 0)) ''Low'' = Some [Some (dbl 10)]"
    "map_of (columns ([bars_tr] ! 0)) ''Close'' = Some [Some (dbl 11)]"
    by (simp_all add: bars_tr_def)
  have t: "true_range [Some (dbl 12)] [Some (dbl 10)] [Some (dbl 11)] = [Some (dbl 2)]"
    by (simp add: true_range_def row_max3_def series_sub_def series_abs_def shift1_def
        cell_sub_def cell_max_def dbl_arith)
  have a: "atr_smooth 5 (true_range [Some (dbl 12)] [Some (dbl 10)] [Some (dbl 11)])
      = Inr [Some (dbl 2)]"
    using py_truediv_valid [of 5] alpha_valid [of 5]
    by (simp add: t atr_smooth_def ewm_mean_def)
  have p: "rolling_apply 126 20 percentile_rank [Some (dbl 2)] = Inr [None]"
    by (simp add: rolling_apply_def Let_def)
  have "calculate_atr_percentile 0 5 126 [bars_tr] =
     (Inr 1, [bars_tr, \<lparr>nrows = 1, columns = [(''High'', [Some (dbl 12)]),
        (''Low'', [Some (dbl 10)]), (''Close'', [Some (dbl 11)]), (''atr'', [Some (dbl 2)]),
        (''atr_percentile'', [None])]\<rparr>])"
    using calculate_run [OF c a p]
    by (simp add: result_columns_def with_true_range_def temp_columns_def bars_tr_def)
  then show ?thesis by (simp add: bars_tr_def)
qed

section \<open>The score\<close>

text \<open>\<^verbatim>\<open>round(x, d)\<close> is the quotient, in doubles, of an integer by \<open>10 ^ d\<close>; the
  integer is the one nearest to the product of \<open>x\<close> and \<open>10 ^ d\<close> in doubles, a tie going to
  the even one.\<close>

lemma py_round_decimal:
  "\<exists>k::int. py_round x d = dbl (real_of_int k) / dbl (10 ^ d)
     \<and> k = round_half_even (to_real (x * dbl (10 ^ d)))
     \<and> \<bar>real_of_int k - to_real (x * dbl (10 ^ d))\<bar> \<le> 1 / 2"
  using round_half_even_near [of "to_real (x * dbl (10 ^ d))"]
  by (simp add: py_round_def rint_def)

lemma rint_dbl: "rint (dbl x) = dbl (real_of_int (round_half_even (fl x)))"
  by (simp add: rint_def)

text \<open>The roundings in \<^verbatim>\<open>round(51.25, 1)\<close> and \<^verbatim>\<open>round(0.00025, 4)\<close>. The double nearest
  to 0.00025 is above it, its product with 10000 is rounded to 2.5, and \<^verbatim>\<open>rint\<close> takes
  that to 2.\<close>

lemma rnd_1: "fl (205 / 4) = 205 / 4"
  by (rule fl_at [where e = "5" and m = "7212796278210560"])
     (simp_all add: round_half_even_def Let_def)

lemma rnd_2: "fl (1025 / 2) = 1025 / 2"
  by (rule fl_at [where e = "9" and m = "4507997673881600"])
     (simp_all add: round_half_even_def Let_def)

lemma rnd_3: "fl (1 / 4000) = 1152921504606847 / 4611686018427387904"
  by (rule fl_at [where e = "- 12" and m = "4611686018427388"])
     (simp_all add: round_half_even_def Let_def)

lemma rnd_4: "fl (720575940379279375 / 288230376151711744) = 5 / 2"
  by (rule fl_at [where e = "1" and m = "5629499534213120"])
     (simp_all add: round_half_even_def Let_def)


lemma round_examples:
  "py_round (dbl 50) (Suc 0) = dbl 50"
  "py_round (dbl (205 / 4)) (Suc 0) = dbl (256 / 5)"
  "py_round (dbl (1 / 4000)) 4 = dbl (1 / 5000)"
  by (simp_all add: py_round_def rint_dbl dbl_arith rnd_1 rnd_2 rnd_3 rnd_4
      round_half_even_def Let_def)

text \<open>
  Claim C4. For every DataFrame with at least one row and aligned columns \<^verbatim>\<open>atr\<close> and
  \<^verbatim>\<open>atr_percentile\<close>, the score extractor reads only the last elements: when the last
  percentile is undefined it returns score 0 with percentile and ATR value \<^verbatim>\<open>None\<close>;
  otherwise the score is 1 when the last percentile is strictly greater than 50 and 0
  otherwise (exactly 50 scores 0), the returned percentile is the last percentile rounded
  to 1 decimal place and the returned ATR value is the last ATR value rounded to 4
  decimal places. Rounding to \<open>d\<close> places is that of the code: the quotient by \<open>10 ^ d\<close> of the
  integer nearest to the double product of the value and \<open>10 ^ d\<close>.
\<close>

theorem score_from_last:
  assumes "0 < nrows f"
    and "map_of (columns f) ''atr'' = Some atr"
    and "map_of (columns f) ''atr_percentile'' = Some pct"
    and "length atr = nrows f"
    and "length pct = nrows f"
  shows "get_atr_score (Some f) =
      Inr (case last pct of
             None \<Rightarrow> (0, None, None)
           | Some p \<Rightarrow> (if dbl 50 < p then 1 else 0,
                        Some (Some (py_round p 1)),
                        Some (map_option (\<lambda>x. py_round x 4) (last atr))))
    \<and> (\<forall>x d. \<exists>k::int. py_round x d = dbl (real_of_int k) / dbl (10 ^ d)
              \<and> k = round_half_even (to_real (x * dbl (10 ^ d)))
              \<and> \<bar>real_of_int k - to_real (x * dbl (10 ^ d))\<bar> \<le> 1 / 2)"
proof -
  have "get_atr_score (Some f) =
      Inr (case last pct of
             None \<Rightarrow> (0, None, None)
           | Some p \<Rightarrow> (if dbl 50 < p then 1 else 0,
                        Some (Some (py_round p 1)),
                        Some (map_option (\<lambda>x. py_round x 4) (last atr))))"
    using assms(1-3) by (simp add: get_atr_score_def Let_def split: option.splits)
  then show ?thesis using py_round_decimal by blast
qed

theorem score_from_last_witness:
  "get_atr_score (Some (scored 50)) = Inr (0, Some (Some (dbl 50)), Some (Some (dbl (1 / 5000))))
   \<and> get_atr_score (Some (scored (205 / 4)))
       = Inr (1, Some (Some (dbl (256 / 5))), Some (Some (dbl (1 / 5000))))
   \<and> get_atr_score (Some \<lparr>nrows = 1, columns = [(''atr'', [Some (dbl 3)]), (''atr_percentile'', [None])]\<rparr>)
       = Inr (0, None, None)"
proof -
  have a: "0 < nrows (scored p)"
    "map_of (columns (scored p)) ''atr'' = Some [Some (dbl 1), Some (dbl (1 / 4000))]"
    "map_of (columns (scored p)) ''atr_percentile'' = Some [None, Some (dbl p)]"
    "length [Some (dbl 1), Some (dbl (1 / 4000))] = nrows (scored p)"
    "length [None, Some (dbl p)] = nrows (scored p)" for p
    by (simp_all add: scored_def)
  have b: "0 < nrows \<lparr>nrows = 1, columns = [(''atr'', [Some (dbl 3)]), (''atr_percentile'', [None])]\<rparr>"
    "map_of (columns \<lparr>nrows = 1, columns = [(''atr'', [Some (dbl 3)]), (''atr_percentile'', [None])]\<rparr>)
       ''atr'' = Some [Some (dbl 3)]"
    "map_of (columns \<lparr>nrows = 1, columns = [(''atr'', [Some (dbl 3)]), (''atr_percentile'', [None])]\<rparr>)
       ''atr_percentile'' = Some [None]"
    "length [Some (dbl 3)]
       = nrows \<lparr>nrows = 1, columns = [(''atr'', [Some (dbl 3)]), (''atr_percentile'', [None])]\<rparr>"
    "length [None :: cell]
       = nrows \<lparr>nrows = 1, columns = [(''atr'', [Some (dbl 3)]), (''atr_percentile'', [None])]\<rparr>"
    by simp_all
  from score_from_last [OF a, of 50, THEN conjunct1]
    score_from_last [OF a, of "205 / 4", THEN conjunct1]
    score_from_last [OF b, THEN conjunct1]
  show ?thesis by (simp add: round_examples dbl_less rnd_1)
qed

text \<open>
  Claim C7, as amended. For \<^verbatim>\<open>None\<close> and for every DataFrame with no rows, the score
  extractor returns score 0 with percentile and ATR value \<^verbatim>\<open>None\<close>; it does not fail.
\<close>

theorem empty_frame_scores_zero:
  assumes "df = None \<or> (\<exists>f. df = Some f \<and> nrows f = 0)"
  shows "get_atr_score df = Inr (0, None, None)"
  using assms by (auto simp: get_atr_score_def)

theorem empty_frame_scores_zero_witness:
  "get_atr_score None = Inr (0, None, None)
   \<and> get_atr_score (Some \<lparr>nrows = 0, columns = []\<rparr>) = Inr (0, None, None)"
proof -
  have "(None :: frame option) = None \<or> (\<exists>f. (None :: frame option) = Some f \<and> nrows f = 0)"
    by simp
  moreover have "Some \<lparr>nrows = 0, columns = []\<rparr> = None
     \<or> (\<exists>f. Some \<lparr>nrows = 0, columns = []\<rparr> = Some f \<and> nrows f = 0)"
    by simp
  ultimately show ?thesis
    using empty_frame_scores_zero [of None]
      empty_frame_scores_zero [of "Some \<lparr>nrows = 0, columns = []\<rparr>"]
    by blast
qed

text \<open>
  Claim C7 as stated says that series of length 0 are rejected with an error. On a
  DataFrame with the two columns and no rows the guard of line 50 returns a result.
\<close>

theorem empty_series_not_rejected:
  "get_atr_score (Some \<lparr>nrows = 0, columns = [(''atr'', []), (''atr_percentile'', [])]\<rparr>)
     = Inr (0, None, None)
   \<and> \<not> (\<exists>e. get_atr_score (Some \<lparr>nrows = 0, columns = [(''atr'', []), (''atr_percentile'', [])]\<rparr>)
            = Inl e)"
  by (simp add: get_atr_score_def)


end
